theory Spec2Isabelle
  imports Main
begin

section \<open>Errors raised by the program\<close>

text \<open>
  The two places where the parser of range expressions raises \<^verbatim>\<open>ValueError\<close> carry
  different messages; the payload records what the message interpolates.
  \<^item> \<open>InvalidLiteral s\<close>: \<^verbatim>\<open>int(s)\<close> rejected the text \<open>s\<close>;
  \<^item> \<open>InvalidRange i start end\<close>: the explicit \<^verbatim>\<open>raise ValueError(f"Invalid range {i!r}:
    {start} must be < {end}")\<close> of \<^verbatim>\<open>RangeList.__init__\<close>;
  \<^item> \<open>NotEnoughValues\<close>: the unpacking \<^verbatim>\<open>name, num = i.rsplit("_", 1)\<close> got one value.
\<close>

datatype value_error =
    InvalidLiteral string
  | InvalidRange string int int
  | NotEnoughValues

text \<open>What \<^verbatim>\<open>ast.literal_eval\<close> raises on text it cannot decode.\<close>

datatype literal_error = LitSyntaxError | LitValueError

text \<open>
  \<open>ParseError msg\<close> is the program's own exception class, raised by
  \<^verbatim>\<open>parse_album_page\<close> only. \<open>LiteralError\<close> stands for the exception of the standard
  library's decoder, \<open>FetchError\<close> for whatever \<^verbatim>\<open>urlopen\<close> or \<^verbatim>\<open>urlretrieve\<close> raise apart
  from the keyboard interrupt, \<open>OSError\<close> for a failed \<^verbatim>\<open>mkdir\<close>.
\<close>

datatype error =
    ParseError string
  | ValueError value_error
  | LiteralError literal_error
  | AssertionError
  | AttributeError
  | KeyError string
  | FetchError string
  | OSError string

section \<open>Strings\<close>

text \<open>
  Python's \<^verbatim>\<open>str\<close> is modelled by \<open>string\<close>, so a character is one of the 256 code
  points HOL's \<open>char\<close> has. Among them \<^verbatim>\<open>str.isspace\<close>, which the regular expression
  class \<^verbatim>\<open>\s\<close> matches, holds of: tab, line feed, vertical tab, form feed, carriage
  return, the four separators 28 to 31, space, 133 and 160. The whitespace \<^verbatim>\<open>int()\<close>
  strips is the same without the four separators: \<^verbatim>\<open>int("\x1c5")\<close> raises.
\<close>

definition is_space :: "char \<Rightarrow> bool" where
  "is_space c = ((of_char c :: nat) \<in> {9, 10, 11, 12, 13, 28, 29, 30, 31, 32, 133, 160})"

definition is_int_space :: "char \<Rightarrow> bool" where
  "is_int_space c = ((of_char c :: nat) \<in> {9, 10, 11, 12, 13, 32, 133, 160})"

definition is_digit :: "char \<Rightarrow> bool" where
  "is_digit c = (48 \<le> (of_char c :: nat) \<and> (of_char c :: nat) \<le> 57)"

definition digit_val :: "char \<Rightarrow> int" where
  "digit_val c = int (of_char c) - 48"

definition strip :: "string \<Rightarrow> string" where
  "strip s = rev (dropWhile is_int_space (rev (dropWhile is_int_space s)))"

text \<open>\<^verbatim>\<open>s.split(c)\<close>: the pieces between the occurrences of \<open>c\<close>; never the empty list.\<close>

fun split_on :: "char \<Rightarrow> string \<Rightarrow> string list" where
  "split_on c [] = [[]]"
| "split_on c (x # xs) =
     (if x = c then [] # split_on c xs
      else (x # hd (split_on c xs)) # tl (split_on c xs))"

text \<open>
  \<^verbatim>\<open>s.partition(c)\<close>: the text before the first \<open>c\<close>, whether there is one (Python returns
  the separator or the empty string, and the program only tests it for truth), and the
  text after it.
\<close>

definition partition_on :: "char \<Rightarrow> string \<Rightarrow> string \<times> bool \<times> string" where
  "partition_on c s =
     (takeWhile (\<lambda>x. x \<noteq> c) s,
      dropWhile (\<lambda>x. x \<noteq> c) s \<noteq> [],
      tl (dropWhile (\<lambda>x. x \<noteq> c) s))"

text \<open>
  \<^verbatim>\<open>int(s)\<close> in base 10: the whitespace around is stripped, one sign is allowed, then
  come groups of decimal digits, separated by single underscores. \<open>None\<close> is the
  \<^verbatim>\<open>ValueError\<close> "invalid literal". (The interpreter's optional limit on the number
  of digits is not modelled.)
\<close>

definition digits_value :: "string \<Rightarrow> int option" where
  "digits_value body =
     (if list_all (\<lambda>g. g \<noteq> [] \<and> list_all is_digit g) (split_on CHR ''_'' body)
      then Some (foldl (\<lambda>a d. 10 * a + digit_val d) 0 (concat (split_on CHR ''_'' body)))
      else None)"

definition py_int :: "string \<Rightarrow> int option" where
  "py_int s =
     (case strip s of
        [] \<Rightarrow> None
      | c # r \<Rightarrow>
          if c = CHR ''-'' then map_option uminus (digits_value r)
          else if c = CHR ''+'' then digits_value r
          else digits_value (c # r))"

section \<open>RangeList\<close>

text \<open>
  The local \<^verbatim>\<open>only\<close> is a Python set; it is modelled by a list without repetitions
  (\<open>set_add\<close> is \<^verbatim>\<open>only.add\<close>, \<open>set_update\<close> is \<^verbatim>\<open>only.update\<close>). \<^verbatim>\<open>super().__init__(only)\<close>
  stores each element of the set once, in the set's iteration order, which the model
  does not fix: only membership and the absence of repetitions are meaningful.
\<close>

definition set_add :: "'a \<Rightarrow> 'a list \<Rightarrow> 'a list" where
  "set_add x xs = (if x \<in> set xs then xs else xs @ [x])"

definition set_update :: "'a list \<Rightarrow> 'a list \<Rightarrow> 'a list" where
  "set_update ys xs = foldl (\<lambda>acc y. set_add y acc) xs ys"

text \<open>The body of the \<^verbatim>\<open>for\<close> loop of \<^verbatim>\<open>RangeList.__init__\<close>, on one term \<open>i\<close>.\<close>

definition range_term :: "string \<Rightarrow> int list \<Rightarrow> error + int list" where
  "range_term i only =
     (case partition_on CHR ''-'' i of
        (start_s, ok, end_s) \<Rightarrow>
          (case py_int start_s of
             None \<Rightarrow> Inl (ValueError (InvalidLiteral start_s))
           | Some start \<Rightarrow>
               if ok then
                 (case py_int end_s of
                    None \<Rightarrow> Inl (ValueError (InvalidLiteral end_s))
                  | Some end \<Rightarrow>
                      if start \<ge> end then Inl (ValueError (InvalidRange i start end))
                      else Inr (set_update [start..end] only))
               else Inr (set_add start only)))"

fun range_loop :: "string list \<Rightarrow> int list \<Rightarrow> error + int list" where
  "range_loop [] only = Inr only"
| "range_loop (i # rest) only =
     (case range_term i only of
        Inl e \<Rightarrow> Inl e
      | Inr only' \<Rightarrow> range_loop rest only')"

definition RangeList :: "string \<Rightarrow> error + int list" where
  "RangeList page_ranges = range_loop (split_on CHR '','' page_ranges) []"

text \<open>A term the loop body takes without raising (whatever the set holds by then).\<close>

definition accepts_term :: "string \<Rightarrow> bool" where
  "accepts_term u = (case range_term u [] of Inl _ \<Rightarrow> False | Inr _ \<Rightarrow> True)"

text \<open>
  The set of integers a term stands for in the words of the specification: \<open>{N}\<close> for a
  single number, \<open>{N, N+1, ..., M}\<close> for \<open>N-M\<close>.
\<close>

definition implied_set :: "string \<Rightarrow> int set" where
  "implied_set t =
     (case partition_on CHR ''-'' t of
        (a, ok, b) \<Rightarrow>
          (case py_int a of
             None \<Rightarrow> {}
           | Some n \<Rightarrow>
               if ok then (case py_int b of None \<Rightarrow> {} | Some m \<Rightarrow> {n..m})
               else {n}))"

section \<open>The index page\<close>

text \<open>
  The three regular expressions of \<^verbatim>\<open>PATTERNS\<close> are sequences of literal text and of
  greedy repetitions of one character class, with one capturing group around a
  repetition. \<open>Rep c lo grp\<close> is the class \<open>c\<close> repeated at least \<open>lo\<close> times
  (\<^verbatim>\<open>*\<close> is \<open>lo = 0\<close>, \<^verbatim>\<open>+\<close> is \<open>lo = 1\<close>), and \<open>grp\<close> says that it is the group.
\<close>

datatype cclass = NotSemicolon | HexPath | Whitespace | AnyButNewline

definition in_class :: "cclass \<Rightarrow> char \<Rightarrow> bool" where
  "in_class k c =
     (case k of
        NotSemicolon \<Rightarrow> c \<noteq> CHR '';''
      | HexPath \<Rightarrow>
          (97 \<le> (of_char c :: nat) \<and> (of_char c :: nat) \<le> 102) \<or> c = CHR ''/''
          \<or> is_digit c \<or> c = CHR ''-''
      | Whitespace \<Rightarrow> is_space c
      | AnyButNewline \<Rightarrow> c \<noteq> CHR 0x0A)"

datatype item = Lit string | Rep cclass nat bool

text \<open>The first result in the order of the list, as a backtracking matcher tries them.\<close>

primrec first_some :: "('a \<Rightarrow> 'b option) \<Rightarrow> 'a list \<Rightarrow> 'b option" where
  "first_some f [] = None"
| "first_some f (x # xs) = (case f x of Some y \<Rightarrow> Some y | None \<Rightarrow> first_some f xs)"

text \<open>
  Matching a pattern at the start of \<open>s\<close>, the way \<^verbatim>\<open>re\<close> does: a repetition first takes
  every character it can, and gives them back one at a time while the rest of the
  pattern fails. The result is the text of the group.
\<close>

primrec match_here :: "item list \<Rightarrow> string \<Rightarrow> string \<Rightarrow> string option" where
  "match_here [] s cap = Some cap"
| "match_here (it # rest) s cap =
     (case it of
        Lit l \<Rightarrow>
          if take (length l) s = l then match_here rest (drop (length l) s) cap else None
      | Rep c lo grp \<Rightarrow>
          first_some
            (\<lambda>k. match_here rest (drop k s) (if grp then take k s else cap))
            (rev [lo ..< Suc (length (takeWhile (in_class c) s))]))"

text \<open>\<^verbatim>\<open>pattern.search(page)\<close> followed by \<^verbatim>\<open>match.group(1)\<close>: the leftmost match.\<close>

definition re_search :: "item list \<Rightarrow> string \<Rightarrow> string option" where
  "re_search pattern page =
     first_some (\<lambda>p. match_here pattern (drop p page) []) [0 ..< Suc (length page)]"

definition image_list_re :: "item list" where
  "image_list_re = [Lit ''var images = '', Rep NotSemicolon 1 True, Lit '';'']"

definition iiif_re :: "item list" where
  "iiif_re =
     [Lit (CHR 0x27 # ''server': '/medias''), Rep HexPath 1 True, Lit [CHR 0x27, CHR '','']]"

definition title_re :: "item list" where
  "title_re =
     [Lit ''<title>'', Rep Whitespace 0 False, Rep AnyButNewline 0 True,
      Rep Whitespace 0 False, Lit ''</title>'']"

text \<open>\<^verbatim>\<open>PATTERNS\<close>, in the order the dictionary is written and iterated.\<close>

definition PATTERNS :: "(string \<times> item list) list" where
  "PATTERNS = [(''image_list'', image_list_re), (''iiif'', iiif_re), (''title'', title_re)]"

text \<open>A dictionary with string keys, in insertion order; \<open>dict_set\<close> is \<^verbatim>\<open>d[k] = v\<close>.\<close>

fun dict_set :: "string \<Rightarrow> 'v \<Rightarrow> (string \<times> 'v) list \<Rightarrow> (string \<times> 'v) list" where
  "dict_set k v [] = [(k, v)]"
| "dict_set k v ((k', v') # d) = (if k' = k then (k, v) # d else (k', v') # dict_set k v d)"

fun parse_loop ::
  "(string \<times> item list) list \<Rightarrow> string \<Rightarrow> (string \<times> string) list
     \<Rightarrow> error + (string \<times> string) list" where
  "parse_loop [] page results = Inr results"
| "parse_loop ((name, pattern) # rest) page results =
     (case re_search pattern page of
        None \<Rightarrow> Inl (ParseError (name @ '' not found''))
      | Some g \<Rightarrow> parse_loop rest page (dict_set name g results))"

definition parse_album_page :: "string \<Rightarrow> error + (string \<times> string) list" where
  "parse_album_page page = parse_loop PATTERNS page []"

text \<open>
  Whether a pattern matches at the offset \<open>p\<close> of the page: there \<^verbatim>\<open>pattern.search\<close>
  would find a match if the search started at \<open>p\<close>.
\<close>

definition matches_at :: "item list \<Rightarrow> string \<Rightarrow> nat \<Rightarrow> bool" where
  "matches_at pattern page p = (p \<le> length page \<and> match_here pattern (drop p page) [] \<noteq> None)"

text \<open>
  The match \<^verbatim>\<open>pattern.search\<close> returns: the pattern matches at offset \<open>p\<close> with group
  \<open>g\<close>, and at no offset before it.
\<close>

definition leftmost_match :: "item list \<Rightarrow> string \<Rightarrow> nat \<Rightarrow> string \<Rightarrow> bool" where
  "leftmost_match pattern page p g =
     (p \<le> length page \<and> match_here pattern (drop p page) [] = Some g
      \<and> list_all (\<lambda>q. match_here pattern (drop q page) [] = None) [0 ..< p])"

section \<open>Construction of the downloader\<close>

text \<open>
  The values \<^verbatim>\<open>ast.literal_eval\<close> can return, as far as the program is concerned: a list
  of strings is what the index page is meant to carry.
\<close>

datatype pyval = PyStr string | PyInt int | PyList "pyval list" | PyTuple "pyval list" | PyNone

text \<open>
  What the program does not compute itself is a parameter of the model:
  \<^item> \<open>urlopen_read url\<close> is \<^verbatim>\<open>urlopen(url).read().decode("utf8")\<close>;
  \<^item> \<open>literal_eval\<close> is the standard library's decoder of literals;
  \<^item> \<open>urlretrieve url outfile\<close> is what happens when the file is fetched (below);
  \<^item> \<open>mkdir_ok dir\<close> says whether \<^verbatim>\<open>mkdir\<close> succeeds;
  \<^item> \<open>assertions\<close> says whether the interpreter executes \<^verbatim>\<open>assert\<close> statements: it does
    by default, and strips them when it runs with \<^verbatim>\<open>-O\<close> or \<^verbatim>\<open>PYTHONOPTIMIZE\<close>.
\<close>

text \<open>
  A fetch calls the report hook with a block number and a block size for each block,
  and then either returns, with the file written (\<open>Fetched\<close>), or is interrupted from
  the keyboard (\<open>Interrupted\<close>), or raises another exception (\<open>FetchFailed\<close>). In the
  last two cases the flag says whether a file, complete or not, is on the disk by then.
\<close>

datatype fetch_result =
    Fetched "(nat \<times> nat) list"
  | Interrupted "(nat \<times> nat) list" bool
  | FetchFailed "(nat \<times> nat) list" bool string

record env =
  urlopen_read :: "string \<Rightarrow> error + string"
  literal_eval :: "string \<Rightarrow> literal_error + pyval"
  urlretrieve :: "string \<Rightarrow> string \<Rightarrow> fetch_result"
  mkdir_ok :: "string \<Rightarrow> bool"
  assertions :: bool

text \<open>The attributes \<^verbatim>\<open>__init__\<close> sets, as it sets them.\<close>

record album =
  image_names :: pyval
  title :: string
  iiif :: string

definition dict_get :: "(string \<times> 'v) list \<Rightarrow> string \<Rightarrow> error + 'v" where
  "dict_get d k = (case map_of d k of None \<Rightarrow> Inl (KeyError k) | Some v \<Rightarrow> Inr v)"

definition replace_char :: "char \<Rightarrow> char \<Rightarrow> string \<Rightarrow> string" where
  "replace_char a b s = map (\<lambda>c. if c = a then b else c) s"

definition init :: "env \<Rightarrow> string \<Rightarrow> error + album" where
  "init E album_url =
     (case urlopen_read E album_url of
        Inl e \<Rightarrow> Inl e
      | Inr albumpage \<Rightarrow>
          (case parse_album_page albumpage of
             Inl e \<Rightarrow> Inl e
           | Inr parsed \<Rightarrow>
               (case dict_get parsed ''image_list'' of
                  Inl e \<Rightarrow> Inl e
                | Inr image_list \<Rightarrow>
                    (case literal_eval E image_list of
                       Inl le \<Rightarrow> Inl (LiteralError le)
                     | Inr names \<Rightarrow>
                         (case dict_get parsed ''title'' of
                            Inl e \<Rightarrow> Inl e
                          | Inr t \<Rightarrow>
                              (case dict_get parsed ''iiif'' of
                                 Inl e \<Rightarrow> Inl e
                               | Inr f \<Rightarrow>
                                   Inr \<lparr>image_names = names,
                                        title = replace_char CHR ''/'' CHR ''_'' t,
                                        iiif = f\<rparr>))))))"

text \<open>
  A decoder for the sample pages: it reads a bracketed, comma-separated list of
  strings in single or double quotes, without escapes, with optional blanks and an
  optional trailing comma. On such text it returns what \<^verbatim>\<open>ast.literal_eval\<close> returns.
  On any other text it answers with a syntax error, which is what \<^verbatim>\<open>ast.literal_eval\<close>
  does when a bracket or a quote is left open; the sample pages carry no other text.
\<close>

definition is_blank :: "char \<Rightarrow> bool" where
  "is_blank c = (c = CHR '' '' \<or> c = CHR 0x09)"

datatype scan_state = BeforeItem | InString char | AfterItem | Closed

fun list_scan :: "scan_state \<Rightarrow> string \<Rightarrow> string \<Rightarrow> string list \<Rightarrow> string list option" where
  "list_scan st [] cur acc = (if st = Closed then Some acc else None)"
| "list_scan st (c # s) cur acc =
     (case st of
        BeforeItem \<Rightarrow>
          if is_blank c then list_scan BeforeItem s cur acc
          else if c = CHR '']'' then list_scan Closed s cur acc
          else if c = CHR 0x27 \<or> c = CHR 0x22 then list_scan (InString c) s [] acc
          else None
      | InString q \<Rightarrow>
          if c = q then list_scan AfterItem s [] (acc @ [cur])
          else if c = CHR 0x5C \<or> c = CHR 0x0A then None
          else list_scan (InString q) s (cur @ [c]) acc
      | AfterItem \<Rightarrow>
          if is_blank c then list_scan AfterItem s cur acc
          else if c = CHR '','' then list_scan BeforeItem s cur acc
          else if c = CHR '']'' then list_scan Closed s cur acc
          else None
      | Closed \<Rightarrow> if is_blank c then list_scan Closed s cur acc else None)"

definition str_list_literal :: "string \<Rightarrow> string list option" where
  "str_list_literal s =
     (case dropWhile is_blank s of
        [] \<Rightarrow> None
      | c # r \<Rightarrow> if c = CHR ''['' then list_scan BeforeItem r [] [] else None)"

definition literal_eval_lists :: "string \<Rightarrow> literal_error + pyval" where
  "literal_eval_lists s =
     (case str_list_literal s of
        Some xs \<Rightarrow> Inr (PyList (map PyStr xs))
      | None \<Rightarrow> Inl LitSyntaxError)"

section \<open>The download\<close>

text \<open>
  The \<^verbatim>\<open>dl_context\<close> dictionary. The key \<^verbatim>\<open>current_image_url\<close> is absent until the first
  \<^verbatim>\<open>update\<close>, and \<^verbatim>\<open>current_image\<close> is \<^verbatim>\<open>None\<close> until then.
\<close>

record dl_context =
  current_image :: "string option"
  processed_images :: nat
  transferred :: nat
  total_transferred :: nat
  total_images :: nat
  current_image_url :: "string option"

text \<open>
  What a run does to the outside: the calls of the three hooks of the callback handler,
  each with the context as it is at the call, the directory made, the fetches started
  (URL and output file) and the files unlinked.
\<close>

datatype event =
    MkDir string
  | OnStart dl_context
  | OnProgress dl_context
  | OnCompletion dl_context bool bool
  | Fetch string string
  | Unlink string

text \<open>The paths that exist, and the events so far, oldest first.\<close>

record world =
  files :: "string set"
  trace :: "event list"

definition emit :: "event \<Rightarrow> world \<Rightarrow> world" where
  "emit e w = w\<lparr>trace := trace w @ [e]\<rparr>"

text \<open>
  The downloader a run works on: \<^verbatim>\<open>dowload\<close> is modelled for an album whose
  \<^verbatim>\<open>image_names\<close> is a list of strings.
\<close>

record downloader =
  dl_image_names :: "string list"
  dl_title :: string
  dl_iiif :: string

fun str_of :: "pyval \<Rightarrow> string option" where
  "str_of (PyStr s) = Some s"
| "str_of _ = None"

definition as_downloader :: "album \<Rightarrow> downloader option" where
  "as_downloader a =
     (case image_names a of
        PyList vs \<Rightarrow>
          if list_all (\<lambda>v. str_of v \<noteq> None) vs
          then Some \<lparr>dl_image_names = map (\<lambda>v. the (str_of v)) vs,
                     dl_title = title a, dl_iiif = iiif a\<rparr>
          else None
      | _ \<Rightarrow> None)"

definition image_count :: "downloader \<Rightarrow> nat" where
  "image_count D = length (dl_image_names D)"

definition image_url :: "downloader \<Rightarrow> string \<Rightarrow> string" where
  "image_url D img =
     ''https://bibliotheque-numerique.inha.fr/i/?IIIF='' @ dl_iiif D @ ''/iiif/'' @ img
       @ ''.tif/full/full/0/native.jpg''"

text \<open>\<^verbatim>\<open>_urlretrieve_cb\<close>: one call of the report hook.\<close>

definition urlretrieve_cb :: "nat \<Rightarrow> nat \<Rightarrow> dl_context \<times> world \<Rightarrow> dl_context \<times> world" where
  "urlretrieve_cb transferred' block_size cw =
     (case cw of (c, w) \<Rightarrow>
        let in_bytes = transferred' * block_size;
            c' = c\<lparr>transferred := transferred c + in_bytes,
                   total_transferred := total_transferred c + in_bytes\<rparr>
        in (c', emit (OnProgress c') w))"

definition report_blocks :: "(nat \<times> nat) list \<Rightarrow> dl_context \<times> world \<Rightarrow> dl_context \<times> world" where
  "report_blocks blocks cw = foldl (\<lambda>cw (n, bs). urlretrieve_cb n bs cw) cw blocks"

text \<open>
  \<^verbatim>\<open>i.rsplit("_", 1)\<close>, unpacked into two names: the text before the last underscore and
  the text after it; \<open>None\<close> when there is no underscore and the unpacking fails.
\<close>

definition rsplit_underscore :: "string \<Rightarrow> (string \<times> string) option" where
  "rsplit_underscore i =
     (if CHR ''_'' \<in> set i
      then Some (rev (tl (dropWhile (\<lambda>c. c \<noteq> CHR ''_'') (rev i))),
                 rev (takeWhile (\<lambda>c. c \<noteq> CHR ''_'') (rev i)))
      else None)"

text \<open>
  Paths are strings. \<^verbatim>\<open>Path(x)\<close> of the empty string is the current directory, and
  joining a file name to it gives the file name; no other normalisation of paths is
  modelled.
\<close>

definition mk_path :: "string \<Rightarrow> string" where
  "mk_path x = (if x = [] then ''.'' else x)"

definition path_join :: "string \<Rightarrow> string \<Rightarrow> string" where
  "path_join d f = (if d = ''.'' then f else d @ ''/'' @ f)"

definition outfile_of :: "string \<Rightarrow> string \<Rightarrow> string" where
  "outfile_of outdir num = path_join outdir (num @ ''.jpg'')"

text \<open>
  How one pass through the body of the loop, or the loop itself, ends: \<open>Normal\<close> when
  the body reaches its end or a \<^verbatim>\<open>continue\<close> (the loop goes on with the next name) and
  when the loop has run through all names, \<open>Break\<close> at the \<^verbatim>\<open>break\<close>, \<open>Raised\<close> when an
  exception leaves it.
\<close>

datatype outcome = Normal | Break | Raised error

text \<open>The update of the context at the top of the loop body.\<close>

definition next_context :: "downloader \<Rightarrow> string \<Rightarrow> string \<Rightarrow> string \<Rightarrow> dl_context \<Rightarrow> dl_context" where
  "next_context D outdir i num c =
     c\<lparr>current_image := Some (outfile_of outdir num), transferred := 0,
       current_image_url := Some (image_url D i)\<rparr>"

text \<open>
  The body of the \<^verbatim>\<open>for\<close> loop of \<^verbatim>\<open>dowload\<close>, for the image name \<open>i\<close>. The set \<open>only\<close>
  is the argument of that name; as a condition it is true when it is not empty.
\<close>

definition loop_body ::
  "env \<Rightarrow> downloader \<Rightarrow> string \<Rightarrow> string set \<Rightarrow> string \<Rightarrow> dl_context \<times> world
     \<Rightarrow> outcome \<times> dl_context \<times> world" where
  "loop_body E D outdir only i cw =
     (case cw of (c, w) \<Rightarrow>
       (case rsplit_underscore i of
          None \<Rightarrow> (Raised (ValueError NotEnoughValues), c, w)
        | Some (name, num) \<Rightarrow>
            let outfile = outfile_of outdir num;
                url = image_url D i;
                c1 = next_context D outdir i num c
            in if only \<noteq> {} \<and> i \<notin> only then (Normal, c1, w)
               else
                 let w1 = emit (OnStart c1) w
                 in if outfile \<in> files w1 then
                      let c2 = c1\<lparr>processed_images := processed_images c1 + 1\<rparr>
                      in (Normal, c2, emit (OnCompletion c2 True False) w1)
                    else
                      (case urlretrieve E url outfile of
                         Fetched blocks \<Rightarrow>
                           (case report_blocks blocks (c1, emit (Fetch url outfile) w1) of
                              (c2, w2) \<Rightarrow>
                                let w3 = w2\<lparr>files := insert outfile (files w2)\<rparr>;
                                    c3 = c2\<lparr>processed_images := processed_images c2 + 1\<rparr>
                                in (Normal, c3, emit (OnCompletion c3 False False) w3))
                       | Interrupted blocks partial \<Rightarrow>
                           (case report_blocks blocks (c1, emit (Fetch url outfile) w1) of
                              (c2, w2) \<Rightarrow>
                                let w3 = (if partial
                                          then w2\<lparr>files := insert outfile (files w2)\<rparr>
                                          else w2);
                                    w4 = (emit (Unlink outfile) w3)
                                           \<lparr>files := files w3 - {outfile}\<rparr>
                                in (Break, c2, emit (OnCompletion c2 False True) w4))
                       | FetchFailed blocks partial msg \<Rightarrow>
                           (case report_blocks blocks (c1, emit (Fetch url outfile) w1) of
                              (c2, w2) \<Rightarrow>
                                let w3 = (if partial
                                          then w2\<lparr>files := insert outfile (files w2)\<rparr>
                                          else w2)
                                in (Raised (FetchError msg), c2, w3)))))"

text \<open>The loop over the image names still to come.\<close>

fun dowload_loop ::
  "env \<Rightarrow> downloader \<Rightarrow> string \<Rightarrow> string set \<Rightarrow> string list \<Rightarrow> dl_context \<times> world
     \<Rightarrow> outcome \<times> dl_context \<times> world" where
  "dowload_loop E D outdir only [] cw = (Normal, cw)"
| "dowload_loop E D outdir only (i # rest) cw =
     (case loop_body E D outdir only i cw of
        (Normal, cw') \<Rightarrow> dowload_loop E D outdir only rest cw'
      | (Break, cw') \<Rightarrow> (Break, cw')
      | (Raised e, cw') \<Rightarrow> (Raised e, cw'))"

text \<open>
  \<^verbatim>\<open>dowload(directory, only)\<close>, both arguments optional with default \<^verbatim>\<open>None\<close>.

  Its first statement is \<^verbatim>\<open>assert only.issubset(self.image_names)\<close>. When assertions
  are executed, \<^verbatim>\<open>None\<close> has no such attribute and a set that is not within the image
  names fails the assertion; when they are stripped, the statement is not there.
\<close>

definition check_only :: "env \<Rightarrow> downloader \<Rightarrow> string set option \<Rightarrow> error option" where
  "check_only E D only =
     (if assertions E then
        (case only of
           None \<Rightarrow> Some AttributeError
         | Some S \<Rightarrow> if S \<subseteq> set (dl_image_names D) then None else Some AssertionError)
      else None)"

text \<open>
  Past that statement \<^verbatim>\<open>only\<close> is read in two ways: as a condition, where \<^verbatim>\<open>None\<close> and
  the empty set are both false, and, when that condition is true, for its length and
  its members. So \<^verbatim>\<open>None\<close> is read as the empty set is. (A Python set is finite, and
  \<open>card\<close> is \<^verbatim>\<open>len\<close>.)
\<close>

definition only_set :: "string set option \<Rightarrow> string set" where
  "only_set only = (case only of None \<Rightarrow> {} | Some S \<Rightarrow> S)"

definition initial_context :: "downloader \<Rightarrow> string set \<Rightarrow> dl_context" where
  "initial_context D only =
     \<lparr>current_image = None, processed_images = 0, transferred = 0, total_transferred = 0,
      total_images = (if only \<noteq> {} then card only else image_count D),
      current_image_url = None\<rparr>"

text \<open>The context does not exist before the first statement has passed.\<close>

definition dowload ::
  "env \<Rightarrow> downloader \<Rightarrow> string option \<Rightarrow> string set option \<Rightarrow> world
     \<Rightarrow> outcome \<times> dl_context option \<times> world" where
  "dowload E D directory only w =
     (case check_only E D only of
        Some e \<Rightarrow> (Raised e, None, w)
      | None \<Rightarrow>
          let S = only_set only;
              c0 = initial_context D S;
              outdir = mk_path (case directory of
                                  None \<Rightarrow> dl_title D
                                | Some d \<Rightarrow> if d = [] then dl_title D else d)
          in if outdir \<notin> files w then
               (if mkdir_ok E outdir then
                  (case dowload_loop E D outdir S (dl_image_names D)
                          (c0, (emit (MkDir outdir) w)\<lparr>files := insert outdir (files w)\<rparr>) of
                     (r, c, w') \<Rightarrow> (r, Some c, w'))
                else (Raised (OSError outdir), Some c0, w))
             else
               (case dowload_loop E D outdir S (dl_image_names D) (c0, w) of
                  (r, c, w') \<Rightarrow> (r, Some c, w')))"

text \<open>
  What is read off a record of events: whether an event is a fetch, and the
  \<^verbatim>\<open>skipped\<close> and \<^verbatim>\<open>cancelled\<close> arguments of the calls of \<^verbatim>\<open>on_completion\<close>, in order.
\<close>

fun is_fetch :: "event \<Rightarrow> bool" where
  "is_fetch (Fetch url outfile) = True"
| "is_fetch _ = False"

fun completion_flags :: "event list \<Rightarrow> (bool \<times> bool) list" where
  "completion_flags [] = []"
| "completion_flags (OnCompletion c skipped cancelled # es) = (skipped, cancelled) # completion_flags es"
| "completion_flags (_ # es) = completion_flags es"

text \<open>The output directory \<^verbatim>\<open>dowload\<close> works in.\<close>

definition outdir_of :: "downloader \<Rightarrow> string option \<Rightarrow> string" where
  "outdir_of D directory =
     mk_path (case directory of None \<Rightarrow> dl_title D
              | Some d \<Rightarrow> if d = [] then dl_title D else d)"

text \<open>
  What of the result of the loop can be seen from outside: how it ended, the counters
  of the context that the loop keeps from one name to the next, the disk and the
  events. (The other fields of the context are set anew for every name before a hook
  can read them.) Two contexts with the same counters are \<open>same_counters\<close>.
\<close>

definition observable ::
  "outcome \<times> dl_context \<times> world \<Rightarrow> outcome \<times> nat \<times> nat \<times> nat \<times> world" where
  "observable r =
     (case r of (out, c, w) \<Rightarrow>
        (out, processed_images c, total_transferred c, total_images c, w))"

definition same_counters :: "dl_context \<Rightarrow> dl_context \<Rightarrow> bool" where
  "same_counters c c' =
     (processed_images c = processed_images c'
      \<and> total_transferred c = total_transferred c'
      \<and> total_images c = total_images c')"

section \<open>Sample albums and environments\<close>

text \<open>
  An album of three images, an environment in which every fetch succeeds in two
  blocks and assertions are executed, one in which the fetch of the second image is interrupted after a file has
  been started, and a disk that holds the output directory \<^verbatim>\<open>d\<close> only.
\<close>

definition three_images :: downloader where
  "three_images = \<lparr>dl_image_names = [''a_1'', ''b_2'', ''c_3''], dl_title = ''T'', dl_iiif = ''/ab/0f''\<rparr>"

definition env_fetching :: env where
  "env_fetching =
     \<lparr>urlopen_read = (\<lambda>u. Inl (FetchError ''offline'')),
      literal_eval = literal_eval_lists,
      urlretrieve = (\<lambda>url outfile. Fetched [(0, 8192), (1, 8192)]),
      mkdir_ok = (\<lambda>d. True),
      assertions = True\<rparr>"

definition env_interrupted :: env where
  "env_interrupted =
     env_fetching\<lparr>urlretrieve := (\<lambda>url outfile.
        if outfile = ''d/2.jpg'' then Interrupted [(0, 8192), (1, 8192)] True
        else Fetched [(0, 8192), (1, 8192)])\<rparr>"

definition world0 :: world where
  "world0 = \<lparr>files = {''d''}, trace = []\<rparr>"

text \<open>
  An environment in which every fetch fails, a disk with nothing on it, and the
  environment of an interpreter that strips assertions.
\<close>

definition env_offline :: env where
  "env_offline =
     env_fetching\<lparr>urlretrieve := (\<lambda>url outfile. FetchFailed [] False ''offline'')\<rparr>"

definition empty_disk :: world where
  "empty_disk = \<lparr>files = {}, trace = []\<rparr>"

definition env_optimized :: env where
  "env_optimized = env_fetching\<lparr>assertions := False\<rparr>"

text \<open>
  Index pages: one with the three markers, one with two title elements, one whose list
  of images is left open, and three that lack one marker each; and an environment that
  serves the page with the open list.
\<close>

definition sample_page :: string where
  "sample_page =
     ''<title> Album A/B </title>\<newline>var images = ['a_1', 'b_2'];\<newline>'server': '/medias/ab/0f-1',''"

definition page_two_titles :: string where
  "page_two_titles =
     ''<title>A</title>\<newline><title>B</title>var images = ['a_1'];'server': '/medias/a',''"

definition page_open_list :: string where
  "page_open_list =
     ''<title>T</title>var images = ['a_1', 'b_2',;'server': '/medias/a',''"

definition page_no_title :: string where
  "page_no_title = ''var images = ['a_1'];'server': '/medias/a',''"

definition page_no_iiif :: string where
  "page_no_iiif = ''<title>T</title>var images = ['a_1'];''"

definition page_no_image_list :: string where
  "page_no_image_list = ''<title>T</title>'server': '/medias/a',''"

definition env_open_list :: env where
  "env_open_list = env_fetching\<lparr>urlopen_read := (\<lambda>url. Inr page_open_list)\<rparr>"

section \<open>Properties of RangeList\<close>

lemma set_set_add: "set (set_add x xs) = insert x (set xs)"
  by (auto simp: set_add_def)


lemma set_set_update: "set (set_update ys xs) = set ys \<union> set xs"
  unfolding set_update_def
  by (induction ys arbitrary: xs) (auto simp: set_set_add)


lemma range_term_set:
  assumes "range_term i only = Inr only'"
  shows "set only' = implied_set i \<union> set only"
  using assms
  by (auto simp: range_term_def implied_set_def set_set_add set_set_update
      split: prod.splits option.splits if_splits)

lemma range_loop_set:
  "range_loop ts only = Inr r \<Longrightarrow> set r = (\<Union>t\<in>set ts. implied_set t) \<union> set only"
proof (induction ts arbitrary: only)
  case Nil
  then show ?case by simp
next
  case (Cons t ts)
  from Cons.prems obtain only' where t: "range_term t only = Inr only'"
    and r: "range_loop ts only' = Inr r"
    by (auto split: sum.splits)
  from Cons.IH [OF r] range_term_set [OF t] show ?case by auto
qed

text \<open>
  Claim C3. Whenever \<open>RangeList\<close> accepts a range expression, the integers of the list it
  builds are exactly the union, over the comma-separated terms of the expression, of
  the set each term stands for: \<open>{N}\<close> for a term \<open>N\<close>, \<open>{N, ..., M}\<close> for a term
  \<open>N-M\<close>. The expression \<^verbatim>\<open>1-3,5,7,10-12\<close> gives 1, 2, 3, 5, 7, 10, 11, 12.
\<close>

theorem RangeList_union:
  assumes "RangeList page_ranges = Inr xs"
  shows "set xs = (\<Union>t\<in>set (split_on CHR '','' page_ranges). implied_set t)"
  using range_loop_set [of "split_on CHR '','' page_ranges" "[]" xs] assms
  by (simp add: RangeList_def)

theorem RangeList_union_witness:
  "RangeList ''1-3,5,7,10-12'' = Inr [1, 2, 3, 5, 7, 10, 11, 12] \<and>
   (\<Union>t\<in>set (split_on CHR '','' ''1-3,5,7,10-12''). implied_set t)
     = {1, 2, 3, 5, 7, 10, 11, 12}"
proof -
  have h: "RangeList ''1-3,5,7,10-12'' = Inr [1, 2, 3, 5, 7, 10, 11, 12]"
    by code_simp
  from RangeList_union [OF h] h show ?thesis by simp
qed













lemma range_term_error_kind:
  "range_term i only = Inl e \<Longrightarrow> \<exists>ve. e = ValueError ve"
  by (auto simp: range_term_def split: prod.splits option.splits if_splits)

lemma range_term_accepts:
  "accepts_term u \<Longrightarrow> \<exists>only'. range_term u only = Inr only'"
  by (auto simp: accepts_term_def range_term_def split: prod.splits option.splits if_splits sum.splits)

lemma range_term_bad:
  assumes "partition_on CHR ''-'' t = (a, True, b)" "py_int a = Some n" "py_int b = Some m" "m \<le> n"
  shows "range_term t only = Inl (ValueError (InvalidRange t n m))"
  using assms by (simp add: range_term_def)

lemma range_loop_bad_first:
  assumes "\<forall>u\<in>set pre. accepts_term u"
    and "range_term t only' = Inl e" and "\<And>only. range_term t only = Inl e"
  shows "range_loop (pre @ t # post) only = Inl e"
  using assms(1)
proof (induction pre arbitrary: only)
  case Nil
  then show ?case by (simp add: assms(3))
next
  case (Cons u pre)
  then obtain o' where "range_term u only = Inr o'"
    using range_term_accepts [of u only] by auto
  with Cons show ?case by simp
qed

lemma range_loop_bad_any:
  assumes "\<And>only. \<exists>e. range_term t only = Inl (ValueError e)"
  shows "\<exists>ve. range_loop (pre @ t # post) only = Inl (ValueError ve)"
proof (induction pre arbitrary: only)
  case Nil
  from assms [of only] show ?case by auto
next
  case (Cons u pre)
  show ?case
  proof (cases "range_term u only")
    case (Inl e)
    with range_term_error_kind [OF Inl] show ?thesis by auto
  next
    case (Inr o')
    with Cons [of o'] show ?thesis by simp
  qed
qed

text \<open>
  Claim C8. Let a comma-separated term of the expression have the form \<open>N-M\<close>, with
  both sides read as integers by \<^verbatim>\<open>int\<close>, and \<open>N \<ge> M\<close>. Then parsing fails with a
  \<^verbatim>\<open>ValueError\<close> and builds no list; and when the terms before it are taken without
  error, the error is the one of the range check, carrying that term and both bounds.
\<close>

theorem RangeList_rejects_non_increasing:
  assumes "split_on CHR '','' page_ranges = pre @ t # post"
    and "partition_on CHR ''-'' t = (a, True, b)"
    and "py_int a = Some n" and "py_int b = Some m" and "m \<le> n"
  shows "(\<exists>ve. RangeList page_ranges = Inl (ValueError ve)) \<and>
         ((\<forall>u\<in>set pre. accepts_term u) \<longrightarrow>
            RangeList page_ranges = Inl (ValueError (InvalidRange t n m)))"
proof
  show "\<exists>ve. RangeList page_ranges = Inl (ValueError ve)"
    using range_loop_bad_any [of t pre post "[]"] range_term_bad [OF assms(2-5)] assms(1)
    by (auto simp: RangeList_def)
  show "(\<forall>u\<in>set pre. accepts_term u) \<longrightarrow>
            RangeList page_ranges = Inl (ValueError (InvalidRange t n m))"
    using range_loop_bad_first [of pre t "[]" _ post "[]"] range_term_bad [OF assms(2-5)] assms(1)
    by (auto simp: RangeList_def)
qed

theorem RangeList_rejects_non_increasing_witness:
  "RangeList ''1,5-5,7'' = Inl (ValueError (InvalidRange ''5-5'' 5 5)) \<and>
   RangeList ''5-3'' = Inl (ValueError (InvalidRange ''5-3'' 5 3))"
proof -
  have s1: "split_on CHR '','' ''1,5-5,7'' = [''1''] @ ''5-5'' # [''7'']" by code_simp
  have p1: "partition_on CHR ''-'' ''5-5'' = (''5'', True, ''5'')" by code_simp
  have i5: "py_int ''5'' = Some 5" by code_simp
  have a1: "\<forall>u\<in>set [''1'']. accepts_term u" by code_simp
  have s2: "split_on CHR '','' ''5-3'' = [] @ ''5-3'' # []" by code_simp
  have p2: "partition_on CHR ''-'' ''5-3'' = (''5'', True, ''3'')" by code_simp
  have i3: "py_int ''3'' = Some 3" by code_simp
  from RangeList_rejects_non_increasing [OF s1 p1 i5 i5] a1
    RangeList_rejects_non_increasing [OF s2 p2 i5 i3]
  show ?thesis by simp
qed


section \<open>Properties of the download loop\<close>

lemma files_emit [simp]: "files (emit e w) = files w"
  by (simp add: emit_def)

lemma trace_emit [simp]: "trace (emit e w) = trace w @ [e]"
  by (simp add: emit_def)

lemma report_blocks_Nil [simp]: "report_blocks [] cw = cw"
  by (simp add: report_blocks_def)

lemma report_blocks_Cons [simp]:
  "report_blocks ((n, bs) # blocks) cw = report_blocks blocks (urlretrieve_cb n bs cw)"
  by (simp add: report_blocks_def)

lemma report_blocks_world:
  "report_blocks blocks (c, w) = (c', w') \<Longrightarrow>
     files w' = files w \<and> (\<exists>cs. trace w' = trace w @ map OnProgress cs)
     \<and> processed_images c' = processed_images c \<and> total_images c' = total_images c
     \<and> current_image c' = current_image c \<and> current_image_url c' = current_image_url c"
proof (induction blocks arbitrary: c w)
  case Nil
  then show ?case by auto
next
  case (Cons b blocks)
  obtain n bs where b: "b = (n, bs)" by (cases b)
  obtain c1 w1 where s: "urlretrieve_cb n bs (c, w) = (c1, w1)"
    by (cases "urlretrieve_cb n bs (c, w)")
  then have w1: "files w1 = files w" "trace w1 = trace w @ [OnProgress c1]"
    "processed_images c1 = processed_images c" "total_images c1 = total_images c"
    "current_image c1 = current_image c" "current_image_url c1 = current_image_url c"
    by (auto simp: urlretrieve_cb_def Let_def)
  from Cons.prems b s have "report_blocks blocks (c1, w1) = (c', w')" by simp
  from Cons.IH [OF this] obtain cs where
    "files w' = files w1" "trace w' = trace w1 @ map OnProgress cs"
    "processed_images c' = processed_images c1" "total_images c' = total_images c1"
    "current_image c' = current_image c1" "current_image_url c' = current_image_url c1"
    by auto
  with w1 have "files w' = files w" "trace w' = trace w @ map OnProgress (c1 # cs)"
    "processed_images c' = processed_images c" "total_images c' = total_images c"
    "current_image c' = current_image c" "current_image_url c' = current_image_url c"
    by auto
  then show ?case by blast
qed

lemma body_filtered_out:
  assumes "rsplit_underscore i = Some (name, num)" "only \<noteq> {}" "i \<notin> only"
  shows "loop_body E D outdir only i (c, w) = (Normal, next_context D outdir i num c, w)"
  using assms by (simp add: loop_body_def)

lemma body_existing:
  assumes "rsplit_underscore i = Some (name, num)" "only = {} \<or> i \<in> only"
    "outfile_of outdir num \<in> files w"
  shows "loop_body E D outdir only i (c, w) =
           (Normal,
            (next_context D outdir i num c)
               \<lparr>processed_images := processed_images (next_context D outdir i num c) + 1\<rparr>,
            w\<lparr>trace := trace w @
                 [OnStart (next_context D outdir i num c),
                  OnCompletion ((next_context D outdir i num c)
                     \<lparr>processed_images := processed_images (next_context D outdir i num c) + 1\<rparr>)
                    True False]\<rparr>)"
  using assms by (auto simp: loop_body_def Let_def emit_def)

lemma loop_append:
  "dowload_loop E D outdir only (xs @ ys) cw =
     (case dowload_loop E D outdir only xs cw of
        (Normal, cw') \<Rightarrow> dowload_loop E D outdir only ys cw'
      | (Break, cw') \<Rightarrow> (Break, cw')
      | (Raised e, cw') \<Rightarrow> (Raised e, cw'))"
proof (induction xs arbitrary: cw)
  case Nil
  then show ?case by simp
next
  case (Cons i xs)
  show ?case
  proof (cases "loop_body E D outdir only i cw")
    case (fields r c w)
    then show ?thesis by (cases r) (simp_all add: Cons.IH)
  qed
qed

lemma body_interrupted:
  assumes "rsplit_underscore i = Some (name, num)" "only = {} \<or> i \<in> only"
    "outfile_of outdir num \<notin> files w"
    "urlretrieve E (image_url D i) (outfile_of outdir num) = Interrupted blocks partial"
  shows "\<exists>c' w' cs. loop_body E D outdir only i (c, w) = (Break, c', w')
           \<and> files w' = files w
           \<and> trace w' = trace w @ [OnStart (next_context D outdir i num c),
                 Fetch (image_url D i) (outfile_of outdir num)] @ map OnProgress cs
               @ [Unlink (outfile_of outdir num), OnCompletion c' False True]
           \<and> current_image c' = Some (outfile_of outdir num)
           \<and> processed_images c' = processed_images c"
proof -
  let ?c1 = "next_context D outdir i num c"
  let ?w1 = "emit (Fetch (image_url D i) (outfile_of outdir num)) (emit (OnStart ?c1) w)"
  obtain c2 w2 where rb: "report_blocks blocks (?c1, ?w1) = (c2, w2)"
    by (cases "report_blocks blocks (?c1, ?w1)")
  from report_blocks_world [OF rb] obtain cs where
    f: "files w2 = files w" and t: "trace w2 = trace ?w1 @ map OnProgress cs"
    and p: "processed_images c2 = processed_images ?c1" "current_image c2 = current_image ?c1"
    by auto
  have nc: "processed_images ?c1 = processed_images c"
    "current_image ?c1 = Some (outfile_of outdir num)"
    by (simp_all add: next_context_def)
  from assms rb f t p nc show ?thesis
    by (auto simp: loop_body_def Let_def)
qed

lemma body_raises:
  assumes "loop_body E D outdir only i cw = (Raised e, cw')"
  shows "e = ValueError NotEnoughValues \<or> (\<exists>msg. e = FetchError msg)"
proof -
  obtain c w where cw: "cw = (c, w)" by (cases cw)
  from assms show ?thesis unfolding cw loop_body_def
    by (auto simp: Let_def split: option.splits if_splits fetch_result.splits prod.splits)
qed

lemma loop_raises:
  "dowload_loop E D outdir only xs cw = (Raised e, cw')
     \<Longrightarrow> e = ValueError NotEnoughValues \<or> (\<exists>msg. e = FetchError msg)"
proof (induction xs arbitrary: cw)
  case Nil
  then show ?case by simp
next
  case (Cons i xs)
  show ?case
  proof (cases "loop_body E D outdir only i cw")
    case (fields r c w)
    show ?thesis
    proof (cases r)
      case Normal
      with fields Cons.prems have "dowload_loop E D outdir only xs (c, w) = (Raised e, cw')"
        by simp
      then show ?thesis by (rule Cons.IH)
    next
      case Break
      with fields Cons.prems show ?thesis by simp
    next
      case (Raised e')
      with fields Cons.prems have "e' = e" by simp
      with Raised fields body_raises show ?thesis by blast
    qed
  qed
qed

lemma check_only_empty [simp]: "check_only E D (Some {}) = None"
  by (simp add: check_only_def)

lemma only_set_simps [simp]: "only_set None = {}" "only_set (Some S) = S"
  by (simp_all add: only_set_def)

lemma dowload_empty_raises:
  assumes "fst (dowload E D directory (Some {}) w) = Raised e"
  shows "e = ValueError NotEnoughValues \<or> (\<exists>msg. e = FetchError msg) \<or> (\<exists>d. e = OSError d)"
  using assms
  by (auto simp: dowload_def Let_def split: if_splits prod.splits dest!: loop_raises)

lemma body_fetched:
  assumes "rsplit_underscore i = Some (name, num)" "only = {} \<or> i \<in> only"
    "outfile_of outdir num \<notin> files w"
    "urlretrieve E (image_url D i) (outfile_of outdir num) = Fetched blocks"
  shows "\<exists>c' w'. loop_body E D outdir only i (c, w) = (Normal, c', w')
           \<and> files w' = insert (outfile_of outdir num) (files w)
           \<and> processed_images c' = processed_images c + 1"
proof -
  let ?c1 = "next_context D outdir i num c"
  let ?w1 = "emit (Fetch (image_url D i) (outfile_of outdir num)) (emit (OnStart ?c1) w)"
  obtain c2 w2 where rb: "report_blocks blocks (?c1, ?w1) = (c2, w2)"
    by (cases "report_blocks blocks (?c1, ?w1)")
  from report_blocks_world [OF rb] have
    f: "files w2 = files w" and p: "processed_images c2 = processed_images ?c1"
    by auto
  have nc: "processed_images ?c1 = processed_images c"
    by (simp add: next_context_def)
  from assms rb f p nc show ?thesis
    by (auto simp: loop_body_def Let_def)
qed

text \<open>
  Claim C1. Let the loop have come through the names before \<open>i\<close> without leaving, let
  \<open>i\<close> be selected, its output file not be on the disk, and let the fetch of \<open>i\<close> be
  interrupted from the keyboard, with or without a partial file written. Then the
  whole loop ends by \<^verbatim>\<open>break\<close>, whatever names come after \<open>i\<close>; the output file of \<open>i\<close>
  is not on the disk and the disk is otherwise as before; and all that happened since
  is: the start hook for \<open>i\<close>, the fetch, its progress calls, the unlinking of the
  output file, and the completion hook with \<^verbatim>\<open>cancelled=True\<close>. No later name is started.
\<close>

theorem dowload_loop_cancelled:
  assumes "dowload_loop E D outdir only pre cw0 = (Normal, c, w)"
    and "rsplit_underscore i = Some (name, num)"
    and "only = {} \<or> i \<in> only"
    and "outfile_of outdir num \<notin> files w"
    and "urlretrieve E (image_url D i) (outfile_of outdir num) = Interrupted blocks partial"
  shows "\<exists>c' w' cs.
           dowload_loop E D outdir only (pre @ i # rest) cw0 = (Break, c', w')
           \<and> outfile_of outdir num \<notin> files w'
           \<and> files w' = files w
           \<and> trace w' =
               trace w @ [OnStart (next_context D outdir i num c),
                          Fetch (image_url D i) (outfile_of outdir num)]
                 @ map OnProgress cs
                 @ [Unlink (outfile_of outdir num), OnCompletion c' False True]
           \<and> current_image c' = Some (outfile_of outdir num)"
proof -
  from body_interrupted [OF assms(2-5), of c] obtain c' w' cs where
    b: "loop_body E D outdir only i (c, w) = (Break, c', w')"
    and f: "files w' = files w"
    and t: "trace w' = trace w @ [OnStart (next_context D outdir i num c),
                 Fetch (image_url D i) (outfile_of outdir num)] @ map OnProgress cs
               @ [Unlink (outfile_of outdir num), OnCompletion c' False True]"
    and ci: "current_image c' = Some (outfile_of outdir num)"
    by blast
  have "dowload_loop E D outdir only (pre @ i # rest) cw0 = (Break, c', w')"
    by (simp add: loop_append assms(1) b)
  with f t ci assms(4) show ?thesis by auto
qed

theorem dowload_loop_cancelled_witness:
  "rsplit_underscore ''b_2'' = Some (''b'', ''2'')
   \<and> urlretrieve env_interrupted (image_url three_images ''b_2'') (outfile_of ''d'' ''2'')
       = Interrupted [(0, 8192), (1, 8192)] True
   \<and> (\<exists>c' w' cs.
         dowload_loop env_interrupted three_images ''d'' {} [''a_1'', ''b_2'', ''c_3'']
             (initial_context three_images {}, world0) = (Break, c', w')
         \<and> ''d/2.jpg'' \<notin> files w'
         \<and> files w' = {''d'', ''d/1.jpg''}
         \<and> last (trace w') = OnCompletion c' False True
         \<and> current_image c' = Some ''d/2.jpg'')"
proof -
  let ?c0 = "initial_context three_images {}"
  have o1: "outfile_of ''d'' ''1'' = ''d/1.jpg''" by (simp add: outfile_of_def path_join_def)
  have o: "outfile_of ''d'' ''2'' = ''d/2.jpg''" by (simp add: outfile_of_def path_join_def)
  have a1: "rsplit_underscore ''a_1'' = Some (''a'', ''1'')"
    by (simp add: rsplit_underscore_def)
  have a3: "({}::string set) = {} \<or> ''a_1'' \<in> {}" by simp
  have a4: "outfile_of ''d'' ''1'' \<notin> files world0" by (simp add: o1 world0_def)
  have a5: "urlretrieve env_interrupted (image_url three_images ''a_1'') (outfile_of ''d'' ''1'')
       = Fetched [(0, 8192), (1, 8192)]"
    by (simp add: env_interrupted_def o1)
  from body_fetched [OF a1 a3 a4 a5, of ?c0] obtain c w where
    b: "loop_body env_interrupted three_images ''d'' {} ''a_1'' (?c0, world0) = (Normal, c, w)"
    and fw: "files w = insert (outfile_of ''d'' ''1'') (files world0)"
    by blast
  from b have e: "dowload_loop env_interrupted three_images ''d'' {} [''a_1''] (?c0, world0)
                   = (Normal, c, w)"
    by simp
  from fw have fw': "files w = {''d'', ''d/1.jpg''}" by (auto simp: o1 world0_def)
  have h2: "rsplit_underscore ''b_2'' = Some (''b'', ''2'')"
    by (simp add: rsplit_underscore_def)
  have h3: "({}::string set) = {} \<or> ''b_2'' \<in> {}" by simp
  have h4: "outfile_of ''d'' ''2'' \<notin> files w" by (simp add: o fw')
  have h5: "urlretrieve env_interrupted (image_url three_images ''b_2'') (outfile_of ''d'' ''2'')
       = Interrupted [(0, 8192), (1, 8192)] True"
    by (simp add: env_interrupted_def o)
  from dowload_loop_cancelled [OF e h2 h3 h4 h5, of "[''c_3'']"] obtain c' w' cs where
    r: "dowload_loop env_interrupted three_images ''d'' {} ([''a_1''] @ ''b_2'' # [''c_3''])
          (?c0, world0) = (Break, c', w')"
    and p: "outfile_of ''d'' ''2'' \<notin> files w'" "files w' = files w"
      "trace w' = trace w @ [OnStart (next_context three_images ''d'' ''b_2'' ''2'' c),
                          Fetch (image_url three_images ''b_2'') (outfile_of ''d'' ''2'')]
                 @ map OnProgress cs
                 @ [Unlink (outfile_of ''d'' ''2''), OnCompletion c' False True]"
      "current_image c' = Some (outfile_of ''d'' ''2'')"
    by blast
  from p(3) have l: "last (trace w') = OnCompletion c' False True" by simp
  from r have r': "dowload_loop env_interrupted three_images ''d'' {} [''a_1'', ''b_2'', ''c_3'']
          (?c0, world0) = (Break, c', w')"
    by simp
  from p(1,2,4) fw' o l r' have "\<exists>c' w' cs.
         dowload_loop env_interrupted three_images ''d'' {} [''a_1'', ''b_2'', ''c_3'']
             (initial_context three_images {}, world0) = (Break, c', w')
         \<and> ''d/2.jpg'' \<notin> files w'
         \<and> files w' = {''d'', ''d/1.jpg''}
         \<and> last (trace w') = OnCompletion c' False True
         \<and> current_image c' = Some ''d/2.jpg''"
    by (metis (no_types))
  with h2 h5 show ?thesis by (intro conjI)
qed

section \<open>Existing files and reruns\<close>

lemma completion_flags_append [simp]:
  "completion_flags (xs @ ys) = completion_flags xs @ completion_flags ys"
  by (induction xs rule: completion_flags.induct) auto

lemma report_blocks_files:
  "report_blocks blocks (c, w) = (c', w') \<Longrightarrow> files w' = files w"
  by (drule report_blocks_world) simp

lemma body_normal_files:
  assumes "loop_body E D outdir only i (c, w) = (Normal, c', w')"
  shows "files w \<subseteq> files w' \<and>
         (only = {} \<or> i \<in> only \<longrightarrow>
            (\<exists>name num. rsplit_underscore i = Some (name, num)
                \<and> outfile_of outdir num \<in> files w'))"
  using assms
  by (auto simp: loop_body_def Let_def
      split: option.splits if_splits fetch_result.splits prod.splits
      dest!: report_blocks_files)

lemma loop_normal_files:
  "dowload_loop E D outdir only xs (c, w) = (Normal, c', w') \<Longrightarrow>
     files w \<subseteq> files w' \<and>
     (\<forall>i\<in>set xs. only = {} \<or> i \<in> only \<longrightarrow>
        (\<exists>name num. rsplit_underscore i = Some (name, num)
            \<and> outfile_of outdir num \<in> files w'))"
proof (induction xs arbitrary: c w)
  case Nil
  then show ?case by simp
next
  case (Cons i xs)
  obtain r c1 w1 where b: "loop_body E D outdir only i (c, w) = (r, c1, w1)"
    by (cases "loop_body E D outdir only i (c, w)")
  with Cons.prems have r: "r = Normal" by (cases r) auto
  with b Cons.prems have l: "dowload_loop E D outdir only xs (c1, w1) = (Normal, c', w')"
    by simp
  from body_normal_files [OF b [unfolded r]] Cons.IH [OF l] show ?case
    by (simp add: subset_iff) blast
qed

lemma loop_all_existing:
  assumes "\<forall>i\<in>set xs. \<exists>name num. rsplit_underscore i = Some (name, num)
              \<and> outfile_of outdir num \<in> files w"
  shows "\<exists>c' w'. dowload_loop E D outdir {} xs (c, w) = (Normal, c', w')
           \<and> files w' = files w
           \<and> filter is_fetch (trace w') = filter is_fetch (trace w)
           \<and> completion_flags (trace w')
               = completion_flags (trace w) @ replicate (length xs) (True, False)
           \<and> length (trace w') = length (trace w) + 2 * length xs
           \<and> processed_images c' = processed_images c + length xs"
  using assms
proof (induction xs arbitrary: c w)
  case Nil
  then show ?case by simp
next
  case (Cons i xs)
  then obtain name num where rs: "rsplit_underscore i = Some (name, num)"
    and ex: "outfile_of outdir num \<in> files w" by auto
  let ?c1 = "next_context D outdir i num c"
  let ?c2 = "?c1\<lparr>processed_images := processed_images ?c1 + 1\<rparr>"
  let ?w2 = "w\<lparr>trace := trace w @ [OnStart ?c1, OnCompletion ?c2 True False]\<rparr>"
  have b: "loop_body E D outdir {} i (c, w) = (Normal, ?c2, ?w2)"
    using body_existing [OF rs _ ex, of "{}" E D c] by simp
  have "\<forall>i\<in>set xs. \<exists>name num. rsplit_underscore i = Some (name, num)
              \<and> outfile_of outdir num \<in> files ?w2"
    using Cons.prems by simp
  from Cons.IH [OF this, of ?c2] obtain c' w' where
    l: "dowload_loop E D outdir {} xs (?c2, ?w2) = (Normal, c', w')"
    and p: "files w' = files ?w2"
      "filter is_fetch (trace w') = filter is_fetch (trace ?w2)"
      "completion_flags (trace w')
          = completion_flags (trace ?w2) @ replicate (length xs) (True, False)"
      "length (trace w') = length (trace ?w2) + 2 * length xs"
      "processed_images c' = processed_images ?c2 + length xs"
    by blast
  have pc: "processed_images ?c2 = processed_images c + 1"
    by (simp add: next_context_def)
  have "dowload_loop E D outdir {} (i # xs) (c, w) = (Normal, c', w')"
    using b l by simp
  with p pc show ?case
    by (simp add: replicate_append_same [symmetric] del: replicate_append_same) 
qed

lemma body_completes:
  assumes "rsplit_underscore i \<noteq> None"
    and "\<forall>url f. \<exists>blocks. urlretrieve E url f = Fetched blocks"
  shows "fst (loop_body E D outdir only i cw) = Normal"
proof -
  obtain c w where cw: "cw = (c, w)" by (cases cw)
  from assms(1) obtain name num where rs: "rsplit_underscore i = Some (name, num)" by auto
  from assms(2) obtain blocks where
    u: "urlretrieve E (image_url D i) (outfile_of outdir num) = Fetched blocks" by blast
  consider (out) "only \<noteq> {}" "i \<notin> only"
    | (ex) "only = {} \<or> i \<in> only" "outfile_of outdir num \<in> files w"
    | (new) "only = {} \<or> i \<in> only" "outfile_of outdir num \<notin> files w"
    by blast
  then show ?thesis
  proof cases
    case out
    from body_filtered_out [OF rs out] show ?thesis by (simp add: cw)
  next
    case ex
    from body_existing [OF rs ex] show ?thesis by (simp add: cw)
  next
    case new
    from body_fetched [OF rs new u, of c] show ?thesis by (auto simp: cw)
  qed
qed

lemma loop_completes:
  assumes "\<forall>i\<in>set xs. rsplit_underscore i \<noteq> None"
    and "\<forall>url f. \<exists>blocks. urlretrieve E url f = Fetched blocks"
  shows "fst (dowload_loop E D outdir only xs cw) = Normal"
  using assms(1)
proof (induction xs arbitrary: cw)
  case Nil
  then show ?case by simp
next
  case (Cons i xs)
  then have "fst (loop_body E D outdir only i cw) = Normal"
    using body_completes [OF _ assms(2)] by simp
  then obtain cw' where "loop_body E D outdir only i cw = (Normal, cw')"
    by (cases "loop_body E D outdir only i cw") auto
  with Cons show ?case by simp
qed

lemma dowload_completes:
  assumes "\<forall>i\<in>set (dl_image_names D). rsplit_underscore i \<noteq> None"
    and "\<forall>url f. \<exists>blocks. urlretrieve E url f = Fetched blocks"
    and "\<forall>d. mkdir_ok E d"
  shows "fst (dowload E D directory (Some {}) w) = Normal"
proof -
  let ?out = "outdir_of D directory"
  have l: "fst (dowload_loop E D ?out {} (dl_image_names D) cw) = Normal" for cw
    by (rule loop_completes [OF assms(1,2)])
  show ?thesis
  proof (cases "?out \<in> files w")
    case True
    obtain r c w' where e: "dowload_loop E D ?out {} (dl_image_names D)
        (initial_context D {}, w) = (r, c, w')"
      by (rule prod_cases3)
    with l [of "(initial_context D {}, w)"] have "r = Normal" by simp
    with True e show ?thesis
      by (simp add: dowload_def Let_def outdir_of_def)
  next
    case False
    let ?w = "(emit (MkDir ?out) w)\<lparr>files := insert ?out (files w)\<rparr>"
    obtain r c w' where e: "dowload_loop E D ?out {} (dl_image_names D)
        (initial_context D {}, ?w) = (r, c, w')"
      by (rule prod_cases3)
    with l [of "(initial_context D {}, ?w)"] have "r = Normal" by simp
    with False e assms(3) show ?thesis
      by (simp add: dowload_def Let_def outdir_of_def)
  qed
qed

lemma dowload_first_run:
  assumes "dowload E D directory (Some {}) w0 = (Normal, c1, w1)"
  shows "outdir_of D directory \<in> files w1 \<and>
         (\<forall>i\<in>set (dl_image_names D).
            \<exists>name num. rsplit_underscore i = Some (name, num)
               \<and> outfile_of (outdir_of D directory) num \<in> files w1)"
proof -
  let ?out = "outdir_of D directory"
  let ?c0 = "initial_context D {}"
  from assms obtain ws c where
    l: "dowload_loop E D ?out {} (dl_image_names D) (?c0, ws) = (Normal, c, w1)"
    and ws: "?out \<in> files ws"
    by (auto simp: dowload_def outdir_of_def Let_def split: if_splits prod.splits)
  from loop_normal_files [OF l] ws show ?thesis by auto
qed

lemma dowload_second_run:
  assumes "outdir_of D directory \<in> files w"
    and "\<forall>i\<in>set (dl_image_names D).
            \<exists>name num. rsplit_underscore i = Some (name, num)
               \<and> outfile_of (outdir_of D directory) num \<in> files w"
  shows "\<exists>c' w'. dowload E D directory (Some {}) (w\<lparr>trace := []\<rparr>) = (Normal, Some c', w')
           \<and> files w' = files w
           \<and> filter is_fetch (trace w') = []
           \<and> completion_flags (trace w') = replicate (image_count D) (True, False)
           \<and> length (trace w') = 2 * image_count D
           \<and> processed_images c' = image_count D"
proof -
  let ?w = "w\<lparr>trace := []\<rparr>"
  from assms(2) have "\<forall>i\<in>set (dl_image_names D).
            \<exists>name num. rsplit_underscore i = Some (name, num)
               \<and> outfile_of (outdir_of D directory) num \<in> files ?w" by simp
  from loop_all_existing [OF this, of E D "initial_context D {}"] obtain c' w' where
    l: "dowload_loop E D (outdir_of D directory) {} (dl_image_names D)
          (initial_context D {}, ?w) = (Normal, c', w')"
    and p: "files w' = files ?w" "filter is_fetch (trace w') = filter is_fetch (trace ?w)"
      "completion_flags (trace w')
         = completion_flags (trace ?w) @ replicate (length (dl_image_names D)) (True, False)"
      "length (trace w') = length (trace ?w) + 2 * length (dl_image_names D)"
      "processed_images c' = processed_images (initial_context D {}) + length (dl_image_names D)"
    by blast
  have "dowload E D directory (Some {}) ?w = (Normal, Some c', w')"
    using assms(1) l by (simp add: dowload_def outdir_of_def Let_def)
  with p show ?thesis by (simp add: image_count_def initial_context_def)
qed

lemma three_images_names:
  "\<forall>i\<in>set (dl_image_names three_images). rsplit_underscore i \<noteq> None"
  by (simp add: three_images_def rsplit_underscore_def)

lemma env_fetching_fetches:
  "\<forall>url f. \<exists>blocks. urlretrieve env_fetching url f = Fetched blocks"
  by (simp add: env_fetching_def)

lemma env_fetching_mkdir: "\<forall>d. mkdir_ok env_fetching d"
  by (simp add: env_fetching_def)

text \<open>
  Claim C2. First: when the loop reaches a selected name whose output file is on the
  disk, it calls the start hook, adds one to the processed counter, calls the
  completion hook with \<^verbatim>\<open>skipped=True\<close>, fetches nothing, leaves the disk as it is, and
  goes on with the next name. Second: when a run without filter has gone through all
  names without interrupt or error, a second run on the disk it leaves (in any
  environment) goes through all names, fetches nothing, makes no directory, and
  reports \<^verbatim>\<open>skipped\<close> once for every name of the album.
\<close>

theorem skip_existing_idempotent:
  "(rsplit_underscore i = Some (name, num) \<and> (only = {} \<or> i \<in> only)
      \<and> outfile_of outdir num \<in> files w \<longrightarrow>
      dowload_loop E D outdir only (i # rest) (c, w) =
        dowload_loop E D outdir only rest
          ((next_context D outdir i num c)\<lparr>processed_images := processed_images c + 1\<rparr>,
           w\<lparr>trace := trace w @
                [OnStart (next_context D outdir i num c),
                 OnCompletion ((next_context D outdir i num c)
                                 \<lparr>processed_images := processed_images c + 1\<rparr>) True False]\<rparr>))
   \<and> (dowload E D directory (Some {}) w0 = (Normal, c1, w1) \<longrightarrow>
        (\<exists>c2 w2. dowload E' D directory (Some {}) (w1\<lparr>trace := []\<rparr>) = (Normal, Some c2, w2)
           \<and> files w2 = files w1
           \<and> filter is_fetch (trace w2) = []
           \<and> completion_flags (trace w2) = replicate (image_count D) (True, False)
           \<and> length (trace w2) = 2 * image_count D
           \<and> processed_images c2 = image_count D))"
proof (intro conjI impI)
  assume a: "rsplit_underscore i = Some (name, num) \<and> (only = {} \<or> i \<in> only)
      \<and> outfile_of outdir num \<in> files w"
  then have "loop_body E D outdir only i (c, w) =
           (Normal,
            (next_context D outdir i num c)\<lparr>processed_images := processed_images c + 1\<rparr>,
            w\<lparr>trace := trace w @
                 [OnStart (next_context D outdir i num c),
                  OnCompletion ((next_context D outdir i num c)
                     \<lparr>processed_images := processed_images c + 1\<rparr>) True False]\<rparr>)"
    using body_existing [of i name num only outdir w E D c] by (simp add: next_context_def)
  then show "dowload_loop E D outdir only (i # rest) (c, w) =
        dowload_loop E D outdir only rest
          ((next_context D outdir i num c)\<lparr>processed_images := processed_images c + 1\<rparr>,
           w\<lparr>trace := trace w @
                [OnStart (next_context D outdir i num c),
                 OnCompletion ((next_context D outdir i num c)
                                 \<lparr>processed_images := processed_images c + 1\<rparr>) True False]\<rparr>)"
    by simp
next
  assume "dowload E D directory (Some {}) w0 = (Normal, c1, w1)"
  from dowload_first_run [OF this] dowload_second_run [of D directory w1 E']
  show "\<exists>c2 w2. dowload E' D directory (Some {}) (w1\<lparr>trace := []\<rparr>) = (Normal, Some c2, w2)
           \<and> files w2 = files w1
           \<and> filter is_fetch (trace w2) = []
           \<and> completion_flags (trace w2) = replicate (image_count D) (True, False)
           \<and> length (trace w2) = 2 * image_count D
           \<and> processed_images c2 = image_count D"
    by blast
qed

theorem skip_existing_idempotent_witness:
  "rsplit_underscore ''b_2'' = Some (''b'', ''2'')
   \<and> outfile_of ''d'' ''2'' \<in> files \<lparr>files = {''d'', ''d/2.jpg''}, trace = []\<rparr>
   \<and> dowload_loop env_offline three_images ''d'' {} [''b_2'', ''c_3'']
        (initial_context three_images {}, \<lparr>files = {''d'', ''d/2.jpg''}, trace = []\<rparr>)
      = dowload_loop env_offline three_images ''d'' {} [''c_3'']
         ((next_context three_images ''d'' ''b_2'' ''2'' (initial_context three_images {}))
            \<lparr>processed_images := processed_images (initial_context three_images {}) + 1\<rparr>,
          \<lparr>files = {''d'', ''d/2.jpg''}, trace = []\<rparr>
            \<lparr>trace := trace \<lparr>files = {''d'', ''d/2.jpg''}, trace = []\<rparr> @
              [OnStart (next_context three_images ''d'' ''b_2'' ''2''
                          (initial_context three_images {})),
               OnCompletion
                 ((next_context three_images ''d'' ''b_2'' ''2''
                     (initial_context three_images {}))
                    \<lparr>processed_images := processed_images (initial_context three_images {}) + 1\<rparr>)
                 True False]\<rparr>)
   \<and> fst (dowload env_fetching three_images (Some ''d'') (Some {}) empty_disk) = Normal
   \<and> (\<exists>c2 w2.
         dowload env_offline three_images (Some ''d'') (Some {})
            ((snd (snd (dowload env_fetching three_images (Some ''d'') (Some {}) empty_disk)))
               \<lparr>trace := []\<rparr>)
           = (Normal, Some c2, w2)
         \<and> filter is_fetch (trace w2) = []
         \<and> completion_flags (trace w2) = [(True, False), (True, False), (True, False)]
         \<and> processed_images c2 = 3)"
proof -
  let ?w = "\<lparr>files = {''d'', ''d/2.jpg''}, trace = []\<rparr>"
  let ?c = "initial_context three_images {}"
  let ?r = "dowload env_fetching three_images (Some ''d'') (Some {}) empty_disk"
  have h1: "rsplit_underscore ''b_2'' = Some (''b'', ''2'')"
    by (simp add: rsplit_underscore_def)
  have h2: "outfile_of ''d'' ''2'' \<in> files ?w"
    by (simp add: outfile_of_def path_join_def)
  have h3: "({} :: string set) = {} \<or> ''b_2'' \<in> {}" by simp
  have n: "fst ?r = Normal"
    by (rule dowload_completes [OF three_images_names env_fetching_fetches env_fetching_mkdir])
  then obtain c1 w1 where r: "?r = (Normal, c1, w1)" by (cases ?r) auto
  have ic: "image_count three_images = 3" by (simp add: image_count_def three_images_def)
  note s = skip_existing_idempotent [where i = "''b_2''" and name = "''b''" and num = "''2''"
      and only = "{}" and outdir = "''d''" and w = ?w and E = env_offline
      and D = three_images and rest = "[''c_3'']" and c = ?c,
      THEN conjunct1, THEN mp, OF conjI [OF h1 conjI [OF h3 h2]]]
  note t = skip_existing_idempotent [where E = env_fetching and D = three_images
      and directory = "Some ''d''" and ?w0.0 = empty_disk and ?c1.0 = c1 and ?w1.0 = w1
      and E' = env_offline, THEN conjunct2, THEN mp, OF r]
  from t obtain c2 w2 where
    "dowload env_offline three_images (Some ''d'') (Some {}) (w1\<lparr>trace := []\<rparr>)
       = (Normal, Some c2, w2)"
    "filter is_fetch (trace w2) = []"
    "completion_flags (trace w2) = replicate (image_count three_images) (True, False)"
    "processed_images c2 = image_count three_images"
    by blast
  with ic r have "\<exists>c2 w2.
         dowload env_offline three_images (Some ''d'') (Some {}) ((snd (snd ?r))\<lparr>trace := []\<rparr>)
           = (Normal, Some c2, w2)
         \<and> filter is_fetch (trace w2) = []
         \<and> completion_flags (trace w2) = [(True, False), (True, False), (True, False)]
         \<and> processed_images c2 = 3"
    by (simp add: numeral_3_eq_3)
  with h1 h2 s n show ?thesis by (intro conjI)
qed

section \<open>The filter\<close>

lemma next_context_same:
  "same_counters c c' \<Longrightarrow> next_context D outdir i num c = next_context D outdir i num c'"
  by (cases c, cases c') (simp add: next_context_def same_counters_def)

lemma same_counters_next [simp]: "same_counters (next_context D outdir i num c) c"
  by (simp add: next_context_def same_counters_def)

lemma same_counters_sym: "same_counters c c' \<Longrightarrow> same_counters c' c"
  by (simp add: same_counters_def)

lemma same_counters_trans:
  "same_counters a b \<Longrightarrow> same_counters b c \<Longrightarrow> same_counters a c"
  by (simp add: same_counters_def)

lemma body_selected_same:
  assumes "same_counters c c'" "rsplit_underscore i = Some (name, num)"
  shows "loop_body E D outdir only i (c, w) =
           (if only \<noteq> {} \<and> i \<notin> only then (Normal, next_context D outdir i num c, w)
            else loop_body E D outdir only i (c', w))"
  using next_context_same [OF assms(1), of D outdir i num] assms(2)
  by (simp add: loop_body_def)

lemma observable_raised_same:
  "same_counters c c' \<Longrightarrow> observable (r, c, w) = observable (r, c', w)"
  by (simp add: observable_def same_counters_def)

lemma loop_filter_invisible:
  assumes "only \<noteq> {}"
    and "\<forall>i\<in>set xs. i \<notin> only \<longrightarrow> rsplit_underscore i \<noteq> None"
    and "same_counters c c'"
  shows "observable (dowload_loop E D outdir only xs (c, w))
         = observable (dowload_loop E D outdir only (filter (\<lambda>i. i \<in> only) xs) (c', w))"
  using assms(2,3)
proof (induction xs arbitrary: c c' w)
  case Nil
  then show ?case by (simp add: observable_raised_same)
next
  case (Cons i xs)
  show ?case
  proof (cases "i \<in> only")
    case False
    with Cons.prems obtain name num where rs: "rsplit_underscore i = Some (name, num)"
      by auto
    have b: "loop_body E D outdir only i (c, w) = (Normal, next_context D outdir i num c, w)"
      by (rule body_filtered_out [OF rs assms(1) False])
    have sc: "same_counters (next_context D outdir i num c) c'"
      by (rule same_counters_trans [OF same_counters_next Cons.prems(2)])
    from Cons.prems(1) have "\<forall>i\<in>set xs. i \<notin> only \<longrightarrow> rsplit_underscore i \<noteq> None"
      by simp
    from Cons.IH [OF this sc] False b show ?thesis by simp
  next
    case True
    from Cons.prems(1) have rest: "\<forall>i\<in>set xs. i \<notin> only \<longrightarrow> rsplit_underscore i \<noteq> None"
      by simp
    show ?thesis
    proof (cases "rsplit_underscore i")
      case None
      then have "loop_body E D outdir only i (c, w) = (Raised (ValueError NotEnoughValues), c, w)"
        "loop_body E D outdir only i (c', w) = (Raised (ValueError NotEnoughValues), c', w)"
        by (simp_all add: loop_body_def)
      with True Cons.prems(2) show ?thesis
        by (simp add: observable_raised_same)
    next
      case (Some p)
      obtain name num where p: "p = (name, num)" by (cases p)
      from body_selected_same [OF Cons.prems(2) Some [unfolded p], of E D outdir only w] True
      have eq: "loop_body E D outdir only i (c, w) = loop_body E D outdir only i (c', w)"
        by simp
      obtain r c1 w1 where b: "loop_body E D outdir only i (c', w) = (r, c1, w1)"
        by (rule prod_cases3)
      have sc: "same_counters c1 c1" by (simp add: same_counters_def)
      show ?thesis
      proof (cases r)
        case Normal
        with True eq b Cons.IH [OF rest sc, of w1] show ?thesis by simp
      next
        case Break
        with True eq b show ?thesis by simp
      next
        case (Raised e)
        with True eq b show ?thesis by simp
      qed
    qed
  qed
qed

lemma body_processed_bound:
  assumes "loop_body E D outdir only i (c, w) = (r, c', w')"
  shows "processed_images c'
           \<le> processed_images c + (if only = {} \<or> i \<in> only then 1 else 0)"
  using assms
  by (auto simp: loop_body_def Let_def next_context_def
      split: option.splits if_splits fetch_result.splits prod.splits
      dest!: report_blocks_world)

lemma loop_processed_bound:
  "dowload_loop E D outdir only xs (c, w) = (r, c', w') \<Longrightarrow>
     processed_images c'
       \<le> processed_images c + length (filter (\<lambda>i. only = {} \<or> i \<in> only) xs)"
proof (induction xs arbitrary: c w)
  case Nil
  then show ?case by simp
next
  case (Cons i xs)
  obtain r1 c1 w1 where b: "loop_body E D outdir only i (c, w) = (r1, c1, w1)"
    by (rule prod_cases3)
  note bb = body_processed_bound [OF b]
  show ?case
  proof (cases r1)
    case Normal
    with b Cons.prems have "dowload_loop E D outdir only xs (c1, w1) = (r, c', w')" by simp
    from Cons.IH [OF this] bb show ?thesis by (auto split: if_splits)
  next
    case Break
    with b Cons.prems have "c' = c1" by simp
    with bb show ?thesis by (auto split: if_splits)
  next
    case (Raised e)
    with b Cons.prems have "c' = c1" by simp
    with bb show ?thesis by (auto split: if_splits)
  qed
qed


text \<open>
  Claim C4. Let the filter \<open>only\<close> not be empty. First: at a name that is not in the
  filter (and has the form name, underscore, number) the loop goes on with the next
  name, with the disk, the events and every counter as they were: no hook is called
  and the processed counter does not move. Second: as far as can be seen from
  outside, the run over all names is the run over the names in the filter alone.
  Third: the processed counter grows by at most the number of names in the filter.
\<close>

theorem filtered_out_invisible:
  assumes "only \<noteq> {}"
  shows "(i \<notin> only \<and> rsplit_underscore i = Some (name, num) \<longrightarrow>
            dowload_loop E D outdir only (i # rest) (c, w) =
            dowload_loop E D outdir only rest (next_context D outdir i num c, w))
         \<and> ((\<forall>i\<in>set xs. i \<notin> only \<longrightarrow> rsplit_underscore i \<noteq> None) \<longrightarrow>
              observable (dowload_loop E D outdir only xs (c, w))
              = observable (dowload_loop E D outdir only (filter (\<lambda>i. i \<in> only) xs) (c, w)))
         \<and> (dowload_loop E D outdir only xs (c, w) = (r, c', w') \<longrightarrow>
              processed_images c'
                \<le> processed_images c + length (filter (\<lambda>i. i \<in> only) xs))"
proof (intro conjI impI)
  assume "i \<notin> only \<and> rsplit_underscore i = Some (name, num)"
  then have "loop_body E D outdir only i (c, w) = (Normal, next_context D outdir i num c, w)"
    using body_filtered_out [OF _ assms, of i name num E D outdir c w] by simp
  then show "dowload_loop E D outdir only (i # rest) (c, w) =
            dowload_loop E D outdir only rest (next_context D outdir i num c, w)"
    by simp
next
  assume "\<forall>i\<in>set xs. i \<notin> only \<longrightarrow> rsplit_underscore i \<noteq> None"
  then show "observable (dowload_loop E D outdir only xs (c, w))
              = observable (dowload_loop E D outdir only (filter (\<lambda>i. i \<in> only) xs) (c, w))"
    by (rule loop_filter_invisible [OF assms]) (simp add: same_counters_def)
next
  assume "dowload_loop E D outdir only xs (c, w) = (r, c', w')"
  from loop_processed_bound [OF this] assms
  show "processed_images c' \<le> processed_images c + length (filter (\<lambda>i. i \<in> only) xs)"
    by simp
qed

theorem filtered_out_invisible_witness:
  "{''b_2''} \<noteq> ({} :: string set)
   \<and> ''a_1'' \<notin> {''b_2''}
   \<and> rsplit_underscore ''a_1'' = Some (''a'', ''1'')
   \<and> dowload_loop env_fetching three_images ''d'' {''b_2''} [''a_1'', ''b_2'', ''c_3'']
        (initial_context three_images {''b_2''}, world0)
      = dowload_loop env_fetching three_images ''d'' {''b_2''} [''b_2'', ''c_3'']
          (next_context three_images ''d'' ''a_1'' ''1'' (initial_context three_images {''b_2''}),
           world0)
   \<and> observable
        (dowload_loop env_fetching three_images ''d'' {''b_2''} [''a_1'', ''b_2'', ''c_3'']
           (initial_context three_images {''b_2''}, world0))
      = observable
          (dowload_loop env_fetching three_images ''d'' {''b_2''} [''b_2'']
             (initial_context three_images {''b_2''}, world0))
   \<and> processed_images
        (fst (snd (dowload_loop env_fetching three_images ''d'' {''b_2''}
                     [''a_1'', ''b_2'', ''c_3''] (initial_context three_images {''b_2''}, world0))))
      \<le> 1"
proof -
  let ?S = "{''b_2''} :: string set"
  let ?c = "initial_context three_images ?S"
  let ?xs = "[''a_1'', ''b_2'', ''c_3'']"
  let ?run = "dowload_loop env_fetching three_images ''d'' ?S ?xs (?c, world0)"
  have n: "?S \<noteq> {}" by simp
  have a: "''a_1'' \<notin> ?S" by simp
  have rs: "rsplit_underscore ''a_1'' = Some (''a'', ''1'')"
    by (simp add: rsplit_underscore_def)
  have wf: "\<forall>i\<in>set ?xs. i \<notin> ?S \<longrightarrow> rsplit_underscore i \<noteq> None"
    by (simp add: rsplit_underscore_def)
  have fl: "filter (\<lambda>i. i \<in> ?S) ?xs = [''b_2'']" by simp
  have pc: "processed_images ?c = 0" by (simp add: initial_context_def)
  obtain r c' w' where run: "?run = (r, c', w')" by (rule prod_cases3)
  note t1 = filtered_out_invisible [OF n, where i = "''a_1''" and name = "''a''" and num = "''1''"
      and E = env_fetching and D = three_images and outdir = "''d''"
      and rest = "[''b_2'', ''c_3'']" and c = ?c and w = world0,
      THEN conjunct1, THEN mp, OF conjI [OF a rs]]
  note t2 = filtered_out_invisible [OF n, where xs = ?xs
      and E = env_fetching and D = three_images and outdir = "''d''" and c = ?c and w = world0,
      THEN conjunct2, THEN conjunct1, THEN mp, OF wf, unfolded fl]
  note t3 = filtered_out_invisible [OF n, where xs = ?xs
      and E = env_fetching and D = three_images and outdir = "''d''" and c = ?c and w = world0
      and r = r and c' = c' and w' = w',
      THEN conjunct2, THEN conjunct2, THEN mp, OF run, unfolded fl pc]
  from t3 run have b: "processed_images (fst (snd ?run)) \<le> 1" by simp
  from n a rs t1 t2 b show ?thesis by (intro conjI)
qed

section \<open>The empty selection\<close>

lemma body_empty_only:
  "i \<in> S \<Longrightarrow> loop_body E D outdir {} i cw = loop_body E D outdir S i cw"
  by (cases cw; cases "rsplit_underscore i") (auto simp: loop_body_def Let_def)

lemma loop_empty_only:
  "set xs \<subseteq> S \<Longrightarrow> dowload_loop E D outdir {} xs cw = dowload_loop E D outdir S xs cw"
proof (induction xs arbitrary: cw)
  case Nil
  then show ?case by simp
next
  case (Cons i xs)
  then have b: "loop_body E D outdir {} i cw = loop_body E D outdir S i cw"
    by (simp add: body_empty_only)
  from Cons.prems have "set xs \<subseteq> S" by simp
  note ih = Cons.IH [OF this]
  obtain r c w where e: "loop_body E D outdir S i cw = (r, c, w)"
    by (rule prod_cases3)
  show ?case by (cases r) (simp_all add: b e ih)
qed

text \<open>
  The empty range expression is not accepted: its only term is the empty text, which
  \<^verbatim>\<open>int\<close> rejects.
\<close>

theorem RangeList_empty_counterexample:
  "RangeList '''' = Inl (ValueError (InvalidLiteral ''''))"
  by code_simp

text \<open>
  Claim C7, as the code has it. Parsing the empty range expression raises
  \<^verbatim>\<open>ValueError\<close>. An empty set passed as \<^verbatim>\<open>only\<close> selects everything: the total of the
  context is the number of images of the album, and the loop runs over any names as it
  does with a filter that holds them all.
\<close>

theorem empty_selection_selects_all:
  "RangeList '''' = Inl (ValueError (InvalidLiteral ''''))
   \<and> total_images (initial_context D {}) = image_count D
   \<and> (set xs \<subseteq> S \<longrightarrow>
        dowload_loop E D outdir {} xs cw = dowload_loop E D outdir S xs cw)"
proof (intro conjI impI)
  show "RangeList '''' = Inl (ValueError (InvalidLiteral ''''))"
    by code_simp
  show "total_images (initial_context D {}) = image_count D"
    by (simp add: initial_context_def)
  show "dowload_loop E D outdir {} xs cw = dowload_loop E D outdir S xs cw"
    if "set xs \<subseteq> S"
    using that by (rule loop_empty_only)
qed

theorem empty_selection_selects_all_witness:
  "set [''a_1'', ''b_2'', ''c_3''] \<subseteq> {''a_1'', ''b_2'', ''c_3''}
   \<and> total_images (initial_context three_images {}) = 3
   \<and> dowload_loop env_fetching three_images ''d'' {} [''a_1'', ''b_2'', ''c_3'']
        (initial_context three_images {}, world0)
      = dowload_loop env_fetching three_images ''d'' {''a_1'', ''b_2'', ''c_3''}
          [''a_1'', ''b_2'', ''c_3''] (initial_context three_images {}, world0)"
proof -
  have s: "set [''a_1'', ''b_2'', ''c_3''] \<subseteq> {''a_1'', ''b_2'', ''c_3''}" by simp
  have ic: "image_count three_images = 3" by (simp add: image_count_def three_images_def)
  note t = empty_selection_selects_all [where D = three_images
      and xs = "[''a_1'', ''b_2'', ''c_3'']" and S = "{''a_1'', ''b_2'', ''c_3''}"
      and E = env_fetching and outdir = "''d''"
      and cw = "(initial_context three_images {}, world0)"]
  from t [THEN conjunct2, THEN conjunct1] ic
  have a: "total_images (initial_context three_images {}) = 3" by simp
  from s a t [THEN conjunct2, THEN conjunct2, THEN mp, OF s] show ?thesis by (intro conjI)
qed

section \<open>Properties of the index page parser\<close>

lemma first_some_None_iff: "first_some f xs = None \<longleftrightarrow> (\<forall>x\<in>set xs. f x = None)"
  by (induction xs) (auto split: option.splits)

lemma first_some_Some_iff:
  "first_some f xs = Some y \<longleftrightarrow>
     (\<exists>j<length xs. f (xs ! j) = Some y \<and> (\<forall>k<j. f (xs ! k) = None))"
proof (induction xs)
  case Nil
  then show ?case by simp
next
  case (Cons x xs)
  show ?case
  proof (cases "f x")
    case None
    have "(\<exists>j<length (x # xs). f ((x # xs) ! j) = Some y \<and> (\<forall>k<j. f ((x # xs) ! k) = None))
          \<longleftrightarrow> (\<exists>j<length xs. f (xs ! j) = Some y \<and> (\<forall>k<j. f (xs ! k) = None))"
      (is "?L \<longleftrightarrow> ?R")
    proof
      assume ?L
      then obtain j where j: "j < length (x # xs)" "f ((x # xs) ! j) = Some y"
        "\<forall>k<j. f ((x # xs) ! k) = None" by blast
      with None obtain j' where j': "j = Suc j'" by (cases j) auto
      from j(3) j' have "\<forall>k<j'. f (xs ! k) = None" by fastforce
      with j j' show ?R by auto
    next
      assume ?R
      then obtain j where j: "j < length xs" "f (xs ! j) = Some y" "\<forall>k<j. f (xs ! k) = None"
        by blast
      have "\<forall>k<Suc j. f ((x # xs) ! k) = None"
      proof (intro allI impI)
        fix k assume "k < Suc j"
        with j(3) None show "f ((x # xs) ! k) = None" by (cases k) auto
      qed
      with j show ?L by (intro exI [of _ "Suc j"]) simp
    qed
    with None Cons.IH show ?thesis by simp
  next
    case (Some z)
    have "(\<exists>j<length (x # xs). f ((x # xs) ! j) = Some y \<and> (\<forall>k<j. f ((x # xs) ! k) = None))
          \<longleftrightarrow> z = y"
    proof
      assume "\<exists>j<length (x # xs). f ((x # xs) ! j) = Some y \<and> (\<forall>k<j. f ((x # xs) ! k) = None)"
      then obtain j where j: "f ((x # xs) ! j) = Some y" "\<forall>k<j. f ((x # xs) ! k) = None"
        by blast
      with Some have "j = 0" by (cases j) auto
      with j Some show "z = y" by simp
    next
      assume "z = y"
      with Some show
        "\<exists>j<length (x # xs). f ((x # xs) ! j) = Some y \<and> (\<forall>k<j. f ((x # xs) ! k) = None)"
        by (intro exI [of _ 0]) simp
    qed
    with Some show ?thesis by simp
  qed
qed

lemma re_search_None_iff:
  "re_search pattern page = None \<longleftrightarrow> (\<forall>p. \<not> matches_at pattern page p)"
  by (auto simp: re_search_def matches_at_def first_some_None_iff less_Suc_eq_le)

lemma re_search_Some_iff:
  "re_search pattern page = Some g \<longleftrightarrow> (\<exists>p. leftmost_match pattern page p g)"
proof -
  let ?ps = "[0 ..< Suc (length page)]"
  let ?m = "\<lambda>p. match_here pattern (drop p page) []"
  have len: "length ?ps = Suc (length page)" by (simp only: length_upt diff_zero)
  have nth: "?ps ! j = j" if "j < Suc (length page)" for j
    using that by (metis add_0 nth_upt)
  have "re_search pattern page = Some g \<longleftrightarrow>
          (\<exists>j<length ?ps. ?m (?ps ! j) = Some g \<and> (\<forall>k<j. ?m (?ps ! k) = None))"
    unfolding re_search_def by (rule first_some_Some_iff)
  also have "\<dots> \<longleftrightarrow> (\<exists>j<Suc (length page). ?m j = Some g \<and> (\<forall>k<j. ?m k = None))"
    (is "?L \<longleftrightarrow> ?R")
  proof
    assume ?L
    then obtain j where j: "j < length ?ps" "?m (?ps ! j) = Some g"
      "\<forall>k<j. ?m (?ps ! k) = None" by blast
    from j(1) len have jl: "j < Suc (length page)" by (simp only:)
    from j(2) nth [OF jl] have a: "?m j = Some g" by (simp only:)
    have "\<forall>k<j. ?m k = None"
    proof (intro allI impI)
      fix k assume k: "k < j"
      with jl have "k < Suc (length page)" by linarith
      from nth [OF this] j(3) k show "?m k = None" by metis
    qed
    with a jl show ?R by blast
  next
    assume ?R
    then obtain j where jl: "j < Suc (length page)" and a: "?m j = Some g"
      and n: "\<forall>k<j. ?m k = None" by blast
    from jl len have j1: "j < length ?ps" by (simp only:)
    from a nth [OF jl] have a': "?m (?ps ! j) = Some g" by (simp only:)
    have "\<forall>k<j. ?m (?ps ! k) = None"
    proof (intro allI impI)
      fix k assume k: "k < j"
      with jl have "k < Suc (length page)" by linarith
      from nth [OF this] n k show "?m (?ps ! k) = None" by metis
    qed
    with j1 a' show ?L by blast
  qed
  also have "\<dots> \<longleftrightarrow> (\<exists>p. leftmost_match pattern page p g)"
    by (auto simp: leftmost_match_def list_all_iff less_Suc_eq_le)
  finally show ?thesis .
qed

lemma parse_album_page_cases:
  "parse_album_page page =
     (case re_search image_list_re page of
        None \<Rightarrow> Inl (ParseError ''image_list not found'')
      | Some a \<Rightarrow>
          (case re_search iiif_re page of
             None \<Rightarrow> Inl (ParseError ''iiif not found'')
           | Some b \<Rightarrow>
               (case re_search title_re page of
                  None \<Rightarrow> Inl (ParseError ''title not found'')
                | Some t \<Rightarrow> Inr [(''image_list'', a), (''iiif'', b), (''title'', t)])))"
  by (simp add: parse_album_page_def PATTERNS_def split: option.splits)

text \<open>
  A page with two title elements is accepted: the title rule matches at offset 0 and at
  offset 17, and the first match is taken.
\<close>

theorem two_titles_counterexample:
  "matches_at title_re page_two_titles 0
   \<and> matches_at title_re page_two_titles 17
   \<and> parse_album_page page_two_titles
       = Inr [(''image_list'', ''['a_1']''), (''iiif'', ''/a''), (''title'', ''A'')]"
  by code_simp

text \<open>
  Claim C5, as the code has it. The rules are tried in the order image list, resource
  path, title. The first rule without a match makes the parser fail with a
  \<^verbatim>\<open>ParseError\<close> that names it, and nothing is returned; when all three match, the
  result holds exactly the three groups. A rule has no match when the pattern matches
  at no offset of the page; otherwise its group is that of the leftmost match, however
  many matches the page has.
\<close>

theorem parse_album_page_rules:
  "parse_album_page page =
     (case re_search image_list_re page of
        None \<Rightarrow> Inl (ParseError ''image_list not found'')
      | Some a \<Rightarrow>
          (case re_search iiif_re page of
             None \<Rightarrow> Inl (ParseError ''iiif not found'')
           | Some b \<Rightarrow>
               (case re_search title_re page of
                  None \<Rightarrow> Inl (ParseError ''title not found'')
                | Some t \<Rightarrow> Inr [(''image_list'', a), (''iiif'', b), (''title'', t)])))
   \<and> (re_search pattern page = None \<longleftrightarrow> (\<forall>p. \<not> matches_at pattern page p))
   \<and> (re_search pattern page = Some g \<longleftrightarrow> (\<exists>p. leftmost_match pattern page p g))"
  using parse_album_page_cases [of page] re_search_None_iff [of pattern page]
    re_search_Some_iff [of pattern page g]
  by (intro conjI)

theorem parse_album_page_rules_witness:
  "parse_album_page sample_page
     = Inr [(''image_list'', ''['a_1', 'b_2']''), (''iiif'', ''/ab/0f-1''),
            (''title'', ''Album A/B '')]
   \<and> parse_album_page page_no_image_list = Inl (ParseError ''image_list not found'')
   \<and> parse_album_page page_no_iiif = Inl (ParseError ''iiif not found'')
   \<and> parse_album_page page_no_title = Inl (ParseError ''title not found'')
   \<and> (\<exists>p. leftmost_match title_re sample_page p ''Album A/B '')"
proof -
  have e1: "re_search image_list_re sample_page = Some ''['a_1', 'b_2']''" by code_simp
  have e2: "re_search iiif_re sample_page = Some ''/ab/0f-1''" by code_simp
  have e3: "re_search title_re sample_page = Some ''Album A/B ''" by code_simp
  have n1: "re_search image_list_re page_no_image_list = None" by code_simp
  have n2: "re_search image_list_re page_no_iiif = Some ''['a_1']''"
    "re_search iiif_re page_no_iiif = None" by code_simp+
  have n3: "re_search image_list_re page_no_title = Some ''['a_1']''"
    "re_search iiif_re page_no_title = Some ''/a''"
    "re_search title_re page_no_title = None" by code_simp+
  have a: "parse_album_page sample_page
     = Inr [(''image_list'', ''['a_1', 'b_2']''), (''iiif'', ''/ab/0f-1''),
            (''title'', ''Album A/B '')]"
    using parse_album_page_rules [of sample_page, THEN conjunct1] by (simp only: e1 e2 e3 option.case)
  have b: "parse_album_page page_no_image_list = Inl (ParseError ''image_list not found'')"
    using parse_album_page_rules [of page_no_image_list, THEN conjunct1]
    by (simp only: n1 option.case)
  have c: "parse_album_page page_no_iiif = Inl (ParseError ''iiif not found'')"
    using parse_album_page_rules [of page_no_iiif, THEN conjunct1]
    by (simp only: n2 option.case)
  have d: "parse_album_page page_no_title = Inl (ParseError ''title not found'')"
    using parse_album_page_rules [of page_no_title, THEN conjunct1]
    by (simp only: n3 option.case)
  have e: "\<exists>p. leftmost_match title_re sample_page p ''Album A/B ''"
    by (rule parse_album_page_rules [of sample_page title_re "''Album A/B ''",
          THEN conjunct2, THEN conjunct2, THEN iffD1, OF e3])
  from a b c d e show ?thesis by (intro conjI)
qed

text \<open>
  A page on which the three rules match, and whose list of images is left open: the
  construction fails with the error of the decoder, not with a \<^verbatim>\<open>ParseError\<close>.
\<close>

theorem open_list_counterexample:
  "parse_album_page page_open_list
     = Inr [(''image_list'', ''['a_1', 'b_2',''), (''iiif'', ''/a''), (''title'', ''T'')]
   \<and> init env_open_list ''u'' = Inl (LiteralError LitSyntaxError)"
  by code_simp

text \<open>
  Claim C6, as the code has it. When the page is fetched and the three rules match,
  the construction hands the text of the image list to the decoder. An error of the
  decoder becomes the error of the construction, unchanged, and is never a
  \<^verbatim>\<open>ParseError\<close>; a value the
  decoder returns is stored as the image names, whatever it is, with the title (every
  slash replaced by an underscore) and the resource path.
\<close>

theorem init_decoder_error:
  assumes "urlopen_read E album_url = Inr page"
    and "parse_album_page page = Inr parsed"
  shows "\<exists>image_list f t.
           parsed = [(''image_list'', image_list), (''iiif'', f), (''title'', t)]
           \<and> init E album_url =
               (case literal_eval E image_list of
                  Inl le \<Rightarrow> Inl (LiteralError le)
                | Inr names \<Rightarrow>
                    Inr \<lparr>image_names = names,
                         title = replace_char CHR ''/'' CHR ''_'' t, iiif = f\<rparr>)
           \<and> (\<forall>msg. init E album_url \<noteq> Inl (ParseError msg))"
proof -
  from assms(2) obtain image_list f t where
    p: "parsed = [(''image_list'', image_list), (''iiif'', f), (''title'', t)]"
    by (auto simp: parse_album_page_cases split: option.splits)
  have i: "init E album_url =
               (case literal_eval E image_list of
                  Inl le \<Rightarrow> Inl (LiteralError le)
                | Inr names \<Rightarrow>
                    Inr \<lparr>image_names = names,
                         title = replace_char CHR ''/'' CHR ''_'' t, iiif = f\<rparr>)"
    by (simp add: init_def assms p dict_get_def split: sum.splits)
  then have "\<forall>msg. init E album_url \<noteq> Inl (ParseError msg)"
    by (simp split: sum.splits)
  with p i show ?thesis by blast
qed

theorem init_decoder_error_witness:
  "urlopen_read env_open_list ''u'' = Inr page_open_list
   \<and> parse_album_page page_open_list
       = Inr [(''image_list'', ''['a_1', 'b_2',''), (''iiif'', ''/a''), (''title'', ''T'')]
   \<and> literal_eval env_open_list ''['a_1', 'b_2','' = Inl LitSyntaxError
   \<and> init env_open_list ''u'' = Inl (LiteralError LitSyntaxError)"
proof -
  have h1: "urlopen_read env_open_list ''u'' = Inr page_open_list"
    by (simp add: env_open_list_def)
  have h2: "parse_album_page page_open_list
       = Inr [(''image_list'', ''['a_1', 'b_2',''), (''iiif'', ''/a''), (''title'', ''T'')]"
    by code_simp
  have l: "literal_eval env_open_list ''['a_1', 'b_2','' = Inl LitSyntaxError"
    by code_simp
  from init_decoder_error [OF h1 h2] l
  have "init env_open_list ''u'' = Inl (LiteralError LitSyntaxError)"
    by auto
  with h1 h2 l show ?thesis by (intro conjI)
qed

section \<open>The omitted filter\<close>

lemma dowload_None_checked:
  "assertions E \<Longrightarrow> dowload E D directory None w = (Raised AttributeError, None, w)"
  by (simp add: dowload_def check_only_def)

lemma dowload_None_unchecked:
  "\<not> assertions E \<Longrightarrow> dowload E D directory None w = dowload E D directory (Some {}) w"
  by (simp add: dowload_def check_only_def)

lemma env_optimized_fetches:
  "\<forall>url f. \<exists>blocks. urlretrieve env_optimized url f = Fetched blocks"
  by (simp add: env_optimized_def env_fetching_def)

lemma env_optimized_mkdir: "\<forall>d. mkdir_ok env_optimized d"
  by (simp add: env_optimized_def env_fetching_def)

lemma env_optimized_assertions: "\<not> assertions env_optimized"
  by (simp add: env_optimized_def)

text \<open>
  When the interpreter strips assertions, a run with the argument \<^verbatim>\<open>only\<close> left at its
  default \<^verbatim>\<open>None\<close> does not fail: on the album of three images it ends normally and all
  three files are on the disk.
\<close>

theorem only_omitted_optimized_counterexample:
  "\<not> assertions env_optimized
   \<and> fst (dowload env_optimized three_images (Some ''d'') None world0) = Normal
   \<and> ''d/1.jpg'' \<in> files (snd (snd (dowload env_optimized three_images (Some ''d'') None world0)))
   \<and> ''d/2.jpg'' \<in> files (snd (snd (dowload env_optimized three_images (Some ''d'') None world0)))
   \<and> ''d/3.jpg'' \<in> files (snd (snd (dowload env_optimized three_images (Some ''d'') None world0)))"
proof -
  let ?r = "dowload env_optimized three_images (Some ''d'') None world0"
  let ?r' = "dowload env_optimized three_images (Some ''d'') (Some {}) world0"
  have e: "?r = ?r'"
    by (rule dowload_None_unchecked [OF env_optimized_assertions])
  have n: "fst ?r' = Normal"
    by (rule dowload_completes [OF three_images_names env_optimized_fetches env_optimized_mkdir])
  then obtain c1 w1 where r: "?r' = (Normal, c1, w1)" by (cases ?r') auto
  have od: "outdir_of three_images (Some ''d'') = ''d''"
    by (simp add: outdir_of_def mk_path_def)
  have rs: "rsplit_underscore ''a_1'' = Some (''a'', ''1'')"
    "rsplit_underscore ''b_2'' = Some (''b'', ''2'')"
    "rsplit_underscore ''c_3'' = Some (''c'', ''3'')"
    by (simp_all add: rsplit_underscore_def)
  have dn: "dl_image_names three_images = [''a_1'', ''b_2'', ''c_3'']"
    by (simp add: three_images_def)
  from dowload_first_run [OF r, THEN conjunct2] have
    "\<forall>i\<in>set [''a_1'', ''b_2'', ''c_3''].
        \<exists>name num. rsplit_underscore i = Some (name, num) \<and> outfile_of ''d'' num \<in> files w1"
    by (simp only: od dn)
  with rs have "outfile_of ''d'' ''1'' \<in> files w1" "outfile_of ''d'' ''2'' \<in> files w1"
    "outfile_of ''d'' ''3'' \<in> files w1"
    by auto
  then have f: "''d/1.jpg'' \<in> files w1" "''d/2.jpg'' \<in> files w1" "''d/3.jpg'' \<in> files w1"
    by (simp_all add: outfile_of_def path_join_def)
  from e r f env_optimized_assertions show ?thesis by simp
qed

text \<open>
  Claim C10, as the code has it. With the argument \<^verbatim>\<open>only\<close> left at its default
  \<^verbatim>\<open>None\<close>: when assertions are executed, \<^verbatim>\<open>dowload\<close> fails at its first statement with
  an \<^verbatim>\<open>AttributeError\<close>, and the disk and the record of events are untouched (no
  directory is made, no hook is called, nothing is fetched); when assertions are
  stripped, the run is the run with the empty set, which selects everything. With an
  actual set, here the empty one, the first statement fails in neither case.
\<close>

theorem dowload_only_omitted:
  "(assertions E \<longrightarrow> dowload E D directory None w = (Raised AttributeError, None, w))
   \<and> (\<not> assertions E \<longrightarrow>
        dowload E D directory None w = dowload E D directory (Some {}) w)
   \<and> fst (dowload E D directory (Some {}) w) \<noteq> Raised AttributeError
   \<and> fst (dowload E D directory (Some {}) w) \<noteq> Raised AssertionError"
  using dowload_None_checked [of E D directory w] dowload_None_unchecked [of E D directory w]
    dowload_empty_raises [of E D directory w AttributeError]
    dowload_empty_raises [of E D directory w AssertionError]
  by auto

theorem dowload_only_omitted_witness:
  "assertions env_fetching
   \<and> dowload env_fetching three_images (Some ''d'') None world0
       = (Raised AttributeError, None, world0)
   \<and> \<not> assertions env_optimized
   \<and> dowload env_optimized three_images (Some ''d'') None world0
       = dowload env_optimized three_images (Some ''d'') (Some {}) world0"
proof -
  have a: "assertions env_fetching" by (simp add: env_fetching_def)
  have b: "\<not> assertions env_optimized" by (simp add: env_optimized_def)
  note t1 = dowload_only_omitted [where E = env_fetching and D = three_images
      and directory = "Some ''d''" and w = world0, THEN conjunct1, THEN mp, OF a]
  note t2 = dowload_only_omitted [where E = env_optimized and D = three_images
      and directory = "Some ''d''" and w = world0, THEN conjunct2, THEN conjunct1, THEN mp, OF b]
  from a t1 b t2 show ?thesis by (intro conjI)
qed

end
